theory Spec2Isabelle
  imports Main "HOL-Library.Word"
begin

section \<open>mariadb++ connection: a shallow embedding of \<open>src/connection.cpp\<close>\<close>

text \<open>
  The class \<open>mariadb::connection\<close> is a wrapper around a session of the native client
  library. Its methods become functions on a record of the object's fields. The native
  library is not part of the repository: its answers are given by an oracle \<open>L\<close>, and
  every native call is written into a trace that is part of the state, so that a statement
  such as "no native call is issued" is a statement about the trace.
\<close>

subsection \<open>Data\<close>

type_synonym u64 = "64 word"
type_synonym u32 = "32 word"

text \<open>A pointer of the native library (\<open>MYSQL*\<close>, \<open>MYSQL_RES*\<close>, \<open>const char*\<close>):
  \<open>None\<close> is the null pointer.\<close>

type_synonym MYSQL = "nat option"
type_synonym MYSQL_RES = "nat option"

text \<open>A \<open>std::string\<close> is a list of bytes and may hold NUL bytes. Where the source hands
  one over as \<open>.c_str()\<close>, a \<open>const char*\<close> without a length, the receiver sees the bytes
  before the first NUL.\<close>

definition c_str :: "string \<Rightarrow> string" where
  "c_str x = takeWhile (\<lambda>c. c \<noteq> CHR 0x00) x"

text \<open>The account object (\<open>account_ref\<close>), read through its getters only. Its class is
  declared outside \<open>connection.cpp\<close>; the fields are the getters that \<open>connection.cpp\<close>
  calls. The getters \<open>schema()\<close> and \<open>auto_commit()\<close> carry the prefix \<open>account_\<close> here,
  since the connection has getters of the same names. \<open>options\<close> is listed in the order in
  which the range-based \<open>for\<close> of \<open>connect()\<close> visits it.\<close>

record account =
  host_name :: string
  user_name :: string
  password :: string
  account_schema :: string
  port :: nat
  unix_socket :: string
  ssl_key :: string
  ssl_certificate :: string
  ssl_ca :: string
  ssl_ca_path :: string
  ssl_cipher :: string
  account_auto_commit :: bool
  options :: "(string \<times> string) list"

text \<open>The calls of the native library that \<open>connection.cpp\<close> issues, with their
  arguments. \<open>Mysql_real_connect\<close> leaves out the two arguments that are the same in every
  call: the database, \<open>NULL\<close>, and the client flag, \<open>CLIENT_MULTI_STATEMENTS\<close>; its last
  argument is the socket, \<open>None\<close> for \<open>NULL\<close>.\<close>

datatype native_call =
    Mysql_init
  | Mysql_ssl_set MYSQL string string string string string
  | Mysql_real_connect MYSQL string string string nat "string option"
  | Mysql_stat MYSQL
  | Mysql_select_db MYSQL string
  | Mysql_set_character_set MYSQL string
  | Mysql_autocommit MYSQL bool
  | Mysql_close MYSQL
  | Mysql_thread_end
  | Mysql_real_query MYSQL string
  | Mysql_store_result MYSQL
  | Mysql_free_result MYSQL_RES
  | Mysql_field_count MYSQL
  | Mysql_affected_rows MYSQL
  | Mysql_next_result MYSQL
  | Mysql_insert_id MYSQL

text \<open>An error handed to the error-reporting macros.\<close>

datatype report =
    Native_error MYSQL
  | Mariadb_error nat string

text \<open>The connection object: the five members of the class, and three fields that record
  what the object did to the world around it: the native calls issued so far, the number of
  the statement result the session is positioned at, and the errors reported so far.\<close>

record connection =
  m_auto_commit :: bool
  m_mysql :: MYSQL
  m_account :: account
  m_schema :: string
  m_charset :: string
  trace :: "native_call list"
  cursor :: nat
  reported :: "report list"

text \<open>The answers of the native library. A call that concerns the session as a whole is
  answered by the number of native calls issued before it (\<open>length (trace s)\<close>); a call that
  reads the pending statement result (\<open>mysql_store_result\<close>, \<open>mysql_field_count\<close>,
  \<open>mysql_affected_rows\<close>, \<open>mysql_insert_id\<close>, and the status of \<open>mysql_next_result\<close>) is
  answered by the number of that result (\<open>cursor s\<close>), which \<open>mysql_real_query\<close> and
  \<open>mysql_next_result\<close> advance. No function of \<open>connection.cpp\<close> asks the same question
  twice at the same index, so every sequence of answers is some oracle.\<close>

record native =
  mysql_init_r :: "nat \<Rightarrow> MYSQL"
  mysql_ssl_set_r :: "nat \<Rightarrow> int"
  mysql_real_connect_r :: "nat \<Rightarrow> MYSQL"
  mysql_stat_r :: "nat \<Rightarrow> string option"
  mysql_select_db_r :: "nat \<Rightarrow> int"
  mysql_set_character_set_r :: "nat \<Rightarrow> int"
  mysql_autocommit_r :: "nat \<Rightarrow> int"
  mysql_real_query_r :: "nat \<Rightarrow> int"
  mysql_store_result_r :: "nat \<Rightarrow> MYSQL_RES"
  mysql_field_count_r :: "nat \<Rightarrow> u32"
  mysql_affected_rows_r :: "nat \<Rightarrow> u64"
  mysql_next_result_r :: "nat \<Rightarrow> int"
  mysql_insert_id_r :: "nat \<Rightarrow> u64"

subsection \<open>The native calls\<close>

definition issue :: "native_call \<Rightarrow> connection \<Rightarrow> connection" where
  "issue c s = s\<lparr>trace := trace s @ [c]\<rparr>"

definition mysql_init :: "native \<Rightarrow> connection \<Rightarrow> MYSQL \<times> connection" where
  "mysql_init L s = (mysql_init_r L (length (trace s)), issue Mysql_init s)"

definition mysql_ssl_set ::
  "native \<Rightarrow> MYSQL \<Rightarrow> string \<Rightarrow> string \<Rightarrow> string \<Rightarrow> string \<Rightarrow> string \<Rightarrow> connection
    \<Rightarrow> int \<times> connection" where
  "mysql_ssl_set L h k cert ca capath cipher s =
     (mysql_ssl_set_r L (length (trace s)), issue (Mysql_ssl_set h k cert ca capath cipher) s)"

definition mysql_real_connect ::
  "native \<Rightarrow> MYSQL \<Rightarrow> string \<Rightarrow> string \<Rightarrow> string \<Rightarrow> nat \<Rightarrow> string option \<Rightarrow> connection
    \<Rightarrow> MYSQL \<times> connection" where
  "mysql_real_connect L h host user pw prt sock s =
     (mysql_real_connect_r L (length (trace s)),
      issue (Mysql_real_connect h host user pw prt sock) s)"

definition mysql_stat :: "native \<Rightarrow> MYSQL \<Rightarrow> connection \<Rightarrow> string option \<times> connection" where
  "mysql_stat L h s = (mysql_stat_r L (length (trace s)), issue (Mysql_stat h) s)"

definition mysql_select_db :: "native \<Rightarrow> MYSQL \<Rightarrow> string \<Rightarrow> connection \<Rightarrow> int \<times> connection" where
  "mysql_select_db L h db s = (mysql_select_db_r L (length (trace s)), issue (Mysql_select_db h db) s)"

definition mysql_set_character_set ::
  "native \<Rightarrow> MYSQL \<Rightarrow> string \<Rightarrow> connection \<Rightarrow> int \<times> connection" where
  "mysql_set_character_set L h cs s =
     (mysql_set_character_set_r L (length (trace s)), issue (Mysql_set_character_set h cs) s)"

definition mysql_autocommit :: "native \<Rightarrow> MYSQL \<Rightarrow> bool \<Rightarrow> connection \<Rightarrow> int \<times> connection" where
  "mysql_autocommit L h flag s =
     (mysql_autocommit_r L (length (trace s)), issue (Mysql_autocommit h flag) s)"

definition mysql_close :: "MYSQL \<Rightarrow> connection \<Rightarrow> connection" where
  "mysql_close h s = issue (Mysql_close h) s"

definition mysql_thread_end :: "connection \<Rightarrow> connection" where
  "mysql_thread_end s = issue Mysql_thread_end s"

definition mysql_real_query :: "native \<Rightarrow> MYSQL \<Rightarrow> string \<Rightarrow> connection \<Rightarrow> int \<times> connection" where
  "mysql_real_query L h q s =
     (mysql_real_query_r L (length (trace s)),
      (issue (Mysql_real_query h q) s)\<lparr>cursor := Suc (cursor s)\<rparr>)"

definition mysql_store_result :: "native \<Rightarrow> MYSQL \<Rightarrow> connection \<Rightarrow> MYSQL_RES \<times> connection" where
  "mysql_store_result L h s = (mysql_store_result_r L (cursor s), issue (Mysql_store_result h) s)"

definition mysql_free_result :: "MYSQL_RES \<Rightarrow> connection \<Rightarrow> connection" where
  "mysql_free_result r s = issue (Mysql_free_result r) s"

definition mysql_field_count :: "native \<Rightarrow> MYSQL \<Rightarrow> connection \<Rightarrow> u32 \<times> connection" where
  "mysql_field_count L h s = (mysql_field_count_r L (cursor s), issue (Mysql_field_count h) s)"

definition mysql_affected_rows :: "native \<Rightarrow> MYSQL \<Rightarrow> connection \<Rightarrow> u64 \<times> connection" where
  "mysql_affected_rows L h s =
     (mysql_affected_rows_r L (cursor s), issue (Mysql_affected_rows h) s)"

definition mysql_next_result :: "native \<Rightarrow> MYSQL \<Rightarrow> connection \<Rightarrow> int \<times> connection" where
  "mysql_next_result L h s =
     (mysql_next_result_r L (cursor s),
      (issue (Mysql_next_result h) s)\<lparr>cursor := Suc (cursor s)\<rparr>)"

definition mysql_insert_id :: "native \<Rightarrow> MYSQL \<Rightarrow> connection \<Rightarrow> u64 \<times> connection" where
  "mysql_insert_id L h s = (mysql_insert_id_r L (cursor s), issue (Mysql_insert_id h) s)"

subsection \<open>The error macros\<close>

text \<open>Modelled from the spec: the macros \<open>MARIADB_ERROR\<close>, \<open>MYSQL_ERROR_NO_BRAKET\<close> and
  \<open>MYSQL_ERROR_RETURN_FALSE\<close> of \<open>private.hpp\<close>, which is not among the sources. The spec
  has every failure "reported through a side-channel error-report call carrying the native
  error code/message, then converted to the operation's sentinel failure value, never
  thrown": a report is appended to \<open>reported\<close>, and control goes on.
  \<open>MYSQL_ERROR_RETURN_FALSE\<close> is that report followed by \<open>return false\<close>, which the
  callers below write out.\<close>

definition MARIADB_ERROR :: "nat \<Rightarrow> string \<Rightarrow> connection \<Rightarrow> connection" where
  "MARIADB_ERROR error_id msg s = s\<lparr>reported := reported s @ [Mariadb_error error_id msg]\<rparr>"

definition MYSQL_ERROR_NO_BRAKET :: "MYSQL \<Rightarrow> connection \<Rightarrow> connection" where
  "MYSQL_ERROR_NO_BRAKET h s = s\<lparr>reported := reported s @ [Native_error h]\<rparr>"

subsection \<open>Construction, accessors, \<open>connected\<close>, \<open>disconnect\<close>\<close>

text \<open>The constructor sets \<open>m_auto_commit\<close>, \<open>m_mysql\<close> and \<open>m_account\<close>; the two strings
  are default-constructed. Nothing has been called or reported yet.\<close>

definition create :: "account \<Rightarrow> connection" where
  "create acc =
     \<lparr>m_auto_commit = True, m_mysql = None, m_account = acc, m_schema = [], m_charset = [],
      trace = [], cursor = 0, reported = []\<rparr>"

definition schema :: "connection \<Rightarrow> string" where
  "schema s = m_schema s"

definition charset :: "connection \<Rightarrow> string" where
  "charset s = m_charset s"

definition auto_commit :: "connection \<Rightarrow> bool" where
  "auto_commit s = m_auto_commit s"

definition connected :: "native \<Rightarrow> connection \<Rightarrow> bool \<times> connection" where
  "connected L s =
     (if m_mysql s = None then (False, s)
      else (case mysql_stat L (m_mysql s) s of (st, s1) \<Rightarrow> (st \<noteq> None, s1)))"

definition disconnect :: "connection \<Rightarrow> connection" where
  "disconnect s =
     (if m_mysql s = None then s
      else (mysql_thread_end (mysql_close (m_mysql s) s))\<lparr>m_mysql := None\<rparr>)"

text \<open>The macro \<open>MYSQL_ERROR_DISCONNECT\<close> of \<open>connection.cpp\<close>: report, disconnect, and
  \<open>return false\<close> (written out by the caller).\<close>

definition MYSQL_ERROR_DISCONNECT :: "MYSQL \<Rightarrow> connection \<Rightarrow> connection" where
  "MYSQL_ERROR_DISCONNECT h s = disconnect (MYSQL_ERROR_NO_BRAKET h s)"

subsection \<open>The setters, \<open>execute\<close> and \<open>connect\<close>\<close>

text \<open>\<open>connect\<close> calls \<open>set_auto_commit\<close>, \<open>set_schema\<close> and \<open>execute\<close>, and each of them
  calls \<open>connect\<close> first. The three are written over the \<open>connect\<close> they call (\<open>conn\<close>), and
  \<open>connect\<close> itself takes the number \<open>d\<close> of nested activations of \<open>connect\<close> it may use:
  with none left the result is \<open>None\<close>, the call has not returned. The loop of \<open>execute\<close>
  takes the number \<open>n\<close> of iterations it may run in the same way.\<close>

type_synonym connector = "connection \<Rightarrow> (bool \<times> connection) option"

text \<open>The parameter of \<open>set_schema\<close> is a \<open>const char*\<close>: \<open>name\<close> is the text it points to,
  and the caller has cut it (\<open>connect\<close> passes \<open>schema().c_str()\<close>). \<open>set_charset\<close> takes a
  \<open>std::string\<close>, gives the native call its \<open>.c_str()\<close> and caches the string itself.
  \<open>query\<close>, \<open>execute\<close> and \<open>insert\<close> give \<open>mysql_real_query\<close> the text with its length, so
  the whole of it.\<close>

definition set_schema_with :: "connector \<Rightarrow> native \<Rightarrow> string \<Rightarrow> connection \<Rightarrow> (bool \<times> connection) option" where
  "set_schema_with conn L name s =
     (case conn s of
        None \<Rightarrow> None
      | Some (False, s1) \<Rightarrow> Some (False, s1)
      | Some (True, s1) \<Rightarrow>
          (case mysql_select_db L (m_mysql s1) name s1 of (rc, s2) \<Rightarrow>
             if rc \<noteq> 0 then Some (False, MYSQL_ERROR_NO_BRAKET (m_mysql s2) s2)
             else Some (True, s2\<lparr>m_schema := name\<rparr>)))"

definition set_charset_with :: "connector \<Rightarrow> native \<Rightarrow> string \<Rightarrow> connection \<Rightarrow> (bool \<times> connection) option" where
  "set_charset_with conn L v s =
     (case conn s of
        None \<Rightarrow> None
      | Some (False, s1) \<Rightarrow> Some (False, s1)
      | Some (True, s1) \<Rightarrow>
          (case mysql_set_character_set L (m_mysql s1) (c_str v) s1 of (rc, s2) \<Rightarrow>
             if rc \<noteq> 0 then Some (False, MYSQL_ERROR_NO_BRAKET (m_mysql s2) s2)
             else Some (True, s2\<lparr>m_charset := v\<rparr>)))"

definition set_auto_commit_with :: "connector \<Rightarrow> native \<Rightarrow> bool \<Rightarrow> connection \<Rightarrow> (bool \<times> connection) option" where
  "set_auto_commit_with conn L flag s =
     (if m_auto_commit s = flag then Some (True, s)
      else
        (case conn s of
           None \<Rightarrow> None
         | Some (False, s1) \<Rightarrow> Some (False, s1)
         | Some (True, s1) \<Rightarrow>
             (case mysql_autocommit L (m_mysql s1) flag s1 of (rc, s2) \<Rightarrow>
                if rc \<noteq> 0 then Some (False, MYSQL_ERROR_NO_BRAKET (m_mysql s2) s2)
                else Some (True, s2\<lparr>m_auto_commit := flag\<rparr>))))"

text \<open>One pass through the body of the \<open>do ... while (status == 0)\<close> loop of \<open>execute\<close>,
  then the loop again while the status is 0. \<open>Inl\<close> is the \<open>return\<close> from inside the first
  \<open>if\<close>; the sum \<open>affected_rows += ...\<close> is that of \<open>u64\<close> and wraps.\<close>

fun execute_loop :: "native \<Rightarrow> nat \<Rightarrow> u64 \<Rightarrow> connection \<Rightarrow> (u64 \<times> connection) option" where
  "execute_loop L 0 affected_rows s = None"
| "execute_loop L (Suc n) affected_rows s =
     (case mysql_store_result L (m_mysql s) s of (result, s1) \<Rightarrow>
        (case (if result \<noteq> None then Inr (affected_rows, mysql_free_result result s1)
               else (case mysql_field_count L (m_mysql s1) s1 of (fc, s2) \<Rightarrow>
                       if fc = 0
                       then (case mysql_affected_rows L (m_mysql s2) s2 of (ar, s3) \<Rightarrow>
                               Inr (affected_rows + ar, s3))
                       else Inl (affected_rows, MYSQL_ERROR_NO_BRAKET (m_mysql s2) s2))) of
           Inl r \<Rightarrow> Some r
         | Inr (affected_rows', s4) \<Rightarrow>
             (case mysql_next_result L (m_mysql s4) s4 of (status, s5) \<Rightarrow>
                if status > 0 then Some (affected_rows', MYSQL_ERROR_NO_BRAKET (m_mysql s5) s5)
                else if status = 0 then execute_loop L n affected_rows' s5
                else Some (affected_rows', s5))))"

definition execute_with :: "connector \<Rightarrow> native \<Rightarrow> nat \<Rightarrow> string \<Rightarrow> connection \<Rightarrow> (u64 \<times> connection) option" where
  "execute_with conn L n query s =
     (case conn s of
        None \<Rightarrow> None
      | Some (False, s1) \<Rightarrow> Some (0, s1)
      | Some (True, s1) \<Rightarrow>
          (case mysql_real_query L (m_mysql s1) query s1 of (rc, s2) \<Rightarrow>
             if rc \<noteq> 0 then Some (0, MYSQL_ERROR_NO_BRAKET (m_mysql s2) s2)
             else execute_loop L n 0 s2))"

text \<open>The loop over the account's options at the end of \<open>connect\<close>; \<open>exec\<close> is the
  \<open>execute\<close> it calls.\<close>

fun connect_options ::
  "(string \<Rightarrow> connection \<Rightarrow> (u64 \<times> connection) option) \<Rightarrow> (string \<times> string) list \<Rightarrow> connection
    \<Rightarrow> (bool \<times> connection) option" where
  "connect_options exec [] s = Some (True, s)"
| "connect_options exec (pair # rest) s =
     (case exec (c_str (''SET OPTION '' @ fst pair @ ''='' @ snd pair)) s of
        None \<Rightarrow> None
      | Some (cnt, s1) \<Rightarrow>
          if 1 \<noteq> cnt then Some (False, MYSQL_ERROR_DISCONNECT (m_mysql s1) s1)
          else connect_options exec rest s1)"

text \<open>The two steps of \<open>connect\<close> before the session is up: the TLS parameters, applied only
  when the account has a key, and the handshake. Each gives \<open>False\<close> where the source leaves
  through \<open>MYSQL_ERROR_RETURN_FALSE\<close>.\<close>

definition connect_ssl :: "native \<Rightarrow> connection \<Rightarrow> bool \<times> connection" where
  "connect_ssl L s =
     (let a = m_account s in
      if ssl_key a \<noteq> [] then
        (case mysql_ssl_set L (m_mysql s) (c_str (ssl_key a)) (c_str (ssl_certificate a))
                 (c_str (ssl_ca a)) (c_str (ssl_ca_path a)) (c_str (ssl_cipher a)) s of
           (rc, s1) \<Rightarrow>
           if rc \<noteq> 0 then (False, MYSQL_ERROR_NO_BRAKET (m_mysql s1) s1) else (True, s1))
      else (True, s))"

definition connect_real :: "native \<Rightarrow> connection \<Rightarrow> bool \<times> connection" where
  "connect_real L s =
     (let a = m_account s in
      case mysql_real_connect L (m_mysql s) (c_str (host_name a)) (c_str (user_name a))
             (c_str (password a)) (port a)
             (if unix_socket a = [] then None else Some (c_str (unix_socket a))) s of
        (r, s1) \<Rightarrow>
        if r = None then (False, MYSQL_ERROR_NO_BRAKET (m_mysql s1) s1) else (True, s1))"

text \<open>The body of \<open>connect\<close> in three parts. In the first two, \<open>Inl\<close> is a \<open>return\<close> of
  the source and \<open>Inr s\<close> says that control goes on, in state \<open>s\<close>. The first part is the
  test of \<open>connected()\<close>, \<open>mysql_init\<close>, the TLS parameters and the handshake.\<close>

definition connect_session :: "native \<Rightarrow> connection \<Rightarrow> (bool \<times> connection) + connection" where
  "connect_session L s =
     (case connected L s of
        (True, s0) \<Rightarrow> Inl (True, s0)
      | (False, s0) \<Rightarrow>
         (case mysql_init L s0 of (h, s1) \<Rightarrow>
            let s2 = s1\<lparr>m_mysql := h\<rparr> in
            if m_mysql s2 = None
            then Inl (False, MARIADB_ERROR 0 ''Cannot create MYSQL object.'' s2)
            else
              (case connect_ssl L s2 of
                 (False, s3) \<Rightarrow> Inl (False, s3)
               | (True, s3) \<Rightarrow>
                  (case connect_real L s3 of
                     (False, s4) \<Rightarrow> Inl (False, s4)
                   | (True, s4) \<Rightarrow> Inr s4))))"

text \<open>The second part applies the account's autocommit default and, when the account has
  one, its default schema, through the setters; \<open>conn\<close> is the \<open>connect\<close> the setters
  call.\<close>

definition connect_defaults ::
  "connector \<Rightarrow> native \<Rightarrow> connection \<Rightarrow> ((bool \<times> connection) + connection) option" where
  "connect_defaults conn L s4 =
     (case set_auto_commit_with conn L (account_auto_commit (m_account s4)) s4 of
        None \<Rightarrow> None
      | Some (False, s5) \<Rightarrow> Some (Inl (False, MYSQL_ERROR_DISCONNECT (m_mysql s5) s5))
      | Some (True, s5) \<Rightarrow>
         (if account_schema (m_account s5) \<noteq> [] then
            (case set_schema_with conn L (c_str (account_schema (m_account s5))) s5 of
               None \<Rightarrow> None
             | Some (False, s6) \<Rightarrow> Some (Inl (False, MYSQL_ERROR_DISCONNECT (m_mysql s6) s6))
             | Some (True, s6) \<Rightarrow> Some (Inr s6))
          else Some (Inr s5)))"

text \<open>The whole body: the two parts, then the option loop, which ends in \<open>return true\<close>.\<close>

definition connect_once :: "connector \<Rightarrow> native \<Rightarrow> nat \<Rightarrow> connector" where
  "connect_once conn L n s =
     (case connect_session L s of
        Inl r \<Rightarrow> Some r
      | Inr s4 \<Rightarrow>
         (case connect_defaults conn L s4 of
            None \<Rightarrow> None
          | Some (Inl r) \<Rightarrow> Some r
          | Some (Inr s6) \<Rightarrow>
              connect_options (execute_with conn L n) (options (m_account s6)) s6))"

primrec connect :: "native \<Rightarrow> nat \<Rightarrow> nat \<Rightarrow> connector" where
  "connect L 0 n = (\<lambda>s. None)"
| "connect L (Suc d) n = connect_once (connect L d n) L n"

text \<open>The public operations: each uses a \<open>connect\<close> that may nest \<open>d\<close> deep.\<close>

definition set_schema :: "native \<Rightarrow> nat \<Rightarrow> nat \<Rightarrow> string \<Rightarrow> connection \<Rightarrow> (bool \<times> connection) option" where
  "set_schema L d n name s = set_schema_with (connect L d n) L name s"

definition set_charset :: "native \<Rightarrow> nat \<Rightarrow> nat \<Rightarrow> string \<Rightarrow> connection \<Rightarrow> (bool \<times> connection) option" where
  "set_charset L d n v s = set_charset_with (connect L d n) L v s"

definition set_auto_commit :: "native \<Rightarrow> nat \<Rightarrow> nat \<Rightarrow> bool \<Rightarrow> connection \<Rightarrow> (bool \<times> connection) option" where
  "set_auto_commit L d n flag s = set_auto_commit_with (connect L d n) L flag s"

definition execute :: "native \<Rightarrow> nat \<Rightarrow> nat \<Rightarrow> string \<Rightarrow> connection \<Rightarrow> (u64 \<times> connection) option" where
  "execute L d n query s = execute_with (connect L d n) L n query s"

text \<open>\<open>query\<close> returns a \<open>result_set_ref\<close>: empty, or a result set made from this
  connection. The class \<open>result_set\<close> is outside \<open>connection.cpp\<close>; what its constructor does
  is not modelled, only that one was made and on which session.\<close>

datatype result_set_ref = Empty_ref | Result_set MYSQL

definition query :: "native \<Rightarrow> nat \<Rightarrow> nat \<Rightarrow> string \<Rightarrow> connection \<Rightarrow> (result_set_ref \<times> connection) option" where
  "query L d n q s =
     (case connect L d n s of
        None \<Rightarrow> None
      | Some (False, s1) \<Rightarrow> Some (Empty_ref, s1)
      | Some (True, s1) \<Rightarrow>
          (case mysql_real_query L (m_mysql s1) q s1 of (rc, s2) \<Rightarrow>
             if rc \<noteq> 0 then Some (Empty_ref, MYSQL_ERROR_NO_BRAKET (m_mysql s2) s2)
             else Some (Result_set (m_mysql s2), s2)))"

definition insert_query :: "native \<Rightarrow> nat \<Rightarrow> nat \<Rightarrow> string \<Rightarrow> connection \<Rightarrow> (u64 \<times> connection) option" where
  "insert_query L d n q s =
     (case connect L d n s of
        None \<Rightarrow> None
      | Some (False, s1) \<Rightarrow> Some (0, s1)
      | Some (True, s1) \<Rightarrow>
          (case mysql_real_query L (m_mysql s1) q s1 of (rc, s2) \<Rightarrow>
             if rc \<noteq> 0 then Some (0, MYSQL_ERROR_NO_BRAKET (m_mysql s2) s2)
             else (case mysql_insert_id L (m_mysql s2) s2 of (r, s3) \<Rightarrow> Some (r, s3))))"

subsection \<open>Notions used to state the properties\<close>

text \<open>What the loop of \<open>execute\<close> sees of statement result number \<open>c\<close>. The result is in
  error when it has no buffered result set and yet a nonzero field count. It contributes its
  affected-row count when it has no result set and zero fields, and nothing otherwise. The
  loop stops at it when it is in error or the advance status that follows it is not 0.\<close>

definition result_is_error :: "native \<Rightarrow> nat \<Rightarrow> bool" where
  "result_is_error L c \<longleftrightarrow> mysql_store_result_r L c = None \<and> mysql_field_count_r L c \<noteq> 0"

definition result_rows :: "native \<Rightarrow> nat \<Rightarrow> u64" where
  "result_rows L c =
     (if mysql_store_result_r L c = None \<and> mysql_field_count_r L c = 0
      then mysql_affected_rows_r L c else 0)"

definition loop_stops :: "native \<Rightarrow> nat \<Rightarrow> bool" where
  "loop_stops L c \<longleftrightarrow> result_is_error L c \<or> mysql_next_result_r L c \<noteq> 0"

text \<open>Two states of the same object with the same five members.\<close>

definition same_object :: "connection \<Rightarrow> connection \<Rightarrow> bool" where
  "same_object s s' \<longleftrightarrow>
     m_auto_commit s' = m_auto_commit s \<and> m_mysql s' = m_mysql s \<and> m_account s' = m_account s
     \<and> m_schema s' = m_schema s \<and> m_charset s' = m_charset s"

text \<open>From \<open>s\<close> to \<open>s'\<close> the trace has only grown and the account is the same; and a
  \<open>connect\<close> is well-behaved when every call of it is such a step and leaves a session
  handle whenever it returns \<open>true\<close>.\<close>

definition step_ok :: "connection \<Rightarrow> connection \<Rightarrow> bool" where
  "step_ok s s' \<longleftrightarrow> (\<exists>t. trace s' = trace s @ t) \<and> m_account s' = m_account s"

definition conn_ok :: "connector \<Rightarrow> bool" where
  "conn_ok conn \<longleftrightarrow>
     (\<forall>s ok s'. conn s = Some (ok, s') \<longrightarrow> step_ok s s' \<and> (ok \<longrightarrow> m_mysql s' \<noteq> None))"

text \<open>The first line of \<open>connect\<close> and nothing else: a \<open>connect\<close> that can only return
  \<open>true\<close> at once, because \<open>connected()\<close> holds. And a state is settled after time \<open>t0\<close>
  when it has a session handle and a trace longer than \<open>t0\<close>.\<close>

definition fast_path :: "native \<Rightarrow> connector" where
  "fast_path L s = (case connected L s of (True, s0) \<Rightarrow> Some (True, s0) | (False, s0) \<Rightarrow> None)"

definition settled :: "nat \<Rightarrow> connection \<Rightarrow> bool" where
  "settled t0 s \<longleftrightarrow> m_mysql s \<noteq> None \<and> t0 < length (trace s)"

text \<open>The native calls issued from state \<open>s\<close> to a later state \<open>s'\<close>, and the text
  \<open>SET OPTION name=value\<close> for an entry of the account's options; what \<open>connect\<close> submits is
  the \<open>c_str\<close> of it.\<close>

definition issued_between :: "connection \<Rightarrow> connection \<Rightarrow> native_call list" where
  "issued_between s s' = drop (length (trace s)) (trace s')"


text \<open>Counting handshakes (\<open>mysql_real_connect\<close>) and allocations of a session handle
  (\<open>mysql_init\<close>) in a list of native calls. A step is quiet when it issues neither, and
  \<open>once\<close> bounds both by one; a \<open>connect\<close> is quiet when each of its calls is.\<close>

fun is_handshake :: "native_call \<Rightarrow> bool" where
  "is_handshake (Mysql_real_connect h host user pw prt sock) = True"
| "is_handshake c = False"

fun is_allocation :: "native_call \<Rightarrow> bool" where
  "is_allocation Mysql_init = True"
| "is_allocation c = False"

definition handshakes :: "native_call list \<Rightarrow> nat" where
  "handshakes tr = length (filter is_handshake tr)"

definition allocations :: "native_call list \<Rightarrow> nat" where
  "allocations tr = length (filter is_allocation tr)"

definition quiet :: "connection \<Rightarrow> connection \<Rightarrow> bool" where
  "quiet s s' \<longleftrightarrow>
     (\<exists>t. trace s' = trace s @ t \<and> handshakes t = 0 \<and> allocations t = 0)
     \<and> m_account s' = m_account s"

definition once :: "connection \<Rightarrow> connection \<Rightarrow> bool" where
  "once s s' \<longleftrightarrow>
     (\<exists>t. trace s' = trace s @ t \<and> handshakes t \<le> 1 \<and> allocations t \<le> 1)
     \<and> m_account s' = m_account s"

definition conn_quiet :: "connector \<Rightarrow> bool" where
  "conn_quiet conn \<longleftrightarrow> (\<forall>s ok s'. conn s = Some (ok, s') \<longrightarrow> quiet s s')"

text \<open>Two calls of \<open>connect\<close> in a row, with nothing in between; the result is that of
  the second.\<close>

definition connect_twice :: "native \<Rightarrow> nat \<Rightarrow> nat \<Rightarrow> connector" where
  "connect_twice L d n s =
     (case connect L d n s of None \<Rightarrow> None | Some (b, s1) \<Rightarrow> connect L d n s1)"

text \<open>Whatever the first \<open>connect\<close> returns, the second returns too.\<close>

definition conn_le :: "connector \<Rightarrow> connector \<Rightarrow> bool" where
  "conn_le c c' \<longleftrightarrow> (\<forall>s r. c s = Some r \<longrightarrow> c' s = Some r)"

subsection \<open>Concrete accounts and libraries\<close>

text \<open>An account without TLS, default schema or options, whose autocommit default is the
  one a new connection starts with.\<close>

definition acct_plain :: account where
  "acct_plain =
     \<lparr>host_name = ''db.example'', user_name = ''app'', password = ''secret'',
      account_schema = [], port = 3306, unix_socket = [], ssl_key = [], ssl_certificate = [],
      ssl_ca = [], ssl_ca_path = [], ssl_cipher = [], account_auto_commit = True,
      options = []\<rparr>"

text \<open>A library on which every call succeeds; every statement is a single result without
  a result set that affects one row.\<close>

definition lib_up :: native where
  "lib_up =
     \<lparr>mysql_init_r = (\<lambda>t. Some 1), mysql_ssl_set_r = (\<lambda>t. 0),
      mysql_real_connect_r = (\<lambda>t. Some 1), mysql_stat_r = (\<lambda>t. Some ''Uptime: 1''),
      mysql_select_db_r = (\<lambda>t. 0), mysql_set_character_set_r = (\<lambda>t. 0),
      mysql_autocommit_r = (\<lambda>t. 0), mysql_real_query_r = (\<lambda>t. 0),
      mysql_store_result_r = (\<lambda>c. None), mysql_field_count_r = (\<lambda>c. 0),
      mysql_affected_rows_r = (\<lambda>c. 1), mysql_next_result_r = (\<lambda>c. - 1),
      mysql_insert_id_r = (\<lambda>c. 7)\<rparr>"

text \<open>The state that \<open>connect\<close> leaves when it has set up a session for \<open>acct_plain\<close> on
  \<open>lib_up\<close> (lemma \<open>connect_plain\<close> below).\<close>

definition session_up :: connection where
  "session_up =
     (create acct_plain)
       \<lparr>m_mysql := Some 1,
        trace := [Mysql_init,
                  Mysql_real_connect (Some 1) ''db.example'' ''app'' ''secret'' 3306 None]\<rparr>"


text \<open>Two libraries on which the result loop of \<open>execute\<close> runs into an error. On the
  first, result 1 affects two rows and is followed by advance status 0, and result 2 has no
  result set but three fields. On the second, the first result affects four rows and the
  advance status after it is 1.\<close>

definition lib_bad_second :: native where
  "lib_bad_second =
     lib_up\<lparr>mysql_affected_rows_r := (\<lambda>c. 2),
            mysql_field_count_r := (\<lambda>c. if c = 2 then 3 else 0),
            mysql_next_result_r := (\<lambda>c. if c = 1 then 0 else - 1)\<rparr>"

definition lib_advance_fails :: native where
  "lib_advance_fails = lib_up\<lparr>mysql_affected_rows_r := (\<lambda>c. 4), mysql_next_result_r := (\<lambda>c. 1)\<rparr>"

text \<open>An account with a default schema, and a library on which \<open>mysql_select_db\<close>
  succeeds only as the fourth native call: the selection of the default schema during
  \<open>connect\<close> goes through, a selection after it is refused. In the same way, an account whose
  autocommit default is off, and a library on which \<open>mysql_autocommit\<close> succeeds only as the
  fourth native call.\<close>

definition acct_db1 :: account where
  "acct_db1 = acct_plain\<lparr>account_schema := ''db1''\<rparr>"

definition lib_select_once :: native where
  "lib_select_once = lib_up\<lparr>mysql_select_db_r := (\<lambda>t. if t = 3 then 0 else 1)\<rparr>"

definition acct_manual :: account where
  "acct_manual = acct_plain\<lparr>account_auto_commit := False\<rparr>"

definition lib_autocommit_once :: native where
  "lib_autocommit_once = lib_up\<lparr>mysql_autocommit_r := (\<lambda>t. if t = 3 then 0 else 1)\<rparr>"

text \<open>A library whose liveness probe fails once, as the third native call; one whose
  probe always fails; and an account with a default schema, autocommit off and two
  options.\<close>

definition lib_flaky :: native where
  "lib_flaky = lib_up\<lparr>mysql_stat_r := (\<lambda>t. if t = 2 then None else Some ''Uptime: 1'')\<rparr>"

definition lib_dead :: native where
  "lib_dead = lib_up\<lparr>mysql_stat_r := (\<lambda>t. None)\<rparr>"

definition acct_full :: account where
  "acct_full = acct_plain\<lparr>account_schema := ''db1'', account_auto_commit := False,
     options := [(''sql_mode'', ''ANSI''), (''wait_timeout'', ''60'')]\<rparr>"








text \<open>A library that refuses the handshake; an account with a TLS key, and a library on
  which the TLS parameters are rejected.\<close>

definition lib_refused :: native where
  "lib_refused = lib_up\<lparr>mysql_real_connect_r := (\<lambda>t. None)\<rparr>"

definition acct_tls :: account where
  "acct_tls = acct_plain\<lparr>ssl_key := ''client-key.pem'', ssl_certificate := ''client-cert.pem'',
     ssl_ca := ''ca.pem''\<rparr>"

definition lib_tls_fails :: native where
  "lib_tls_fails = lib_up\<lparr>mysql_ssl_set_r := (\<lambda>t. 1)\<rparr>"

section \<open>Properties\<close>

subsection \<open>What the native calls and the macros leave alone\<close>

lemma issue_simps [simp]:
  "m_auto_commit (issue c s) = m_auto_commit s"
  "m_mysql (issue c s) = m_mysql s"
  "m_account (issue c s) = m_account s"
  "m_schema (issue c s) = m_schema s"
  "m_charset (issue c s) = m_charset s"
  "cursor (issue c s) = cursor s"
  "reported (issue c s) = reported s"
  "trace (issue c s) = trace s @ [c]"
  by (simp_all add: issue_def)

lemma report_simps [simp]:
  "m_auto_commit (MYSQL_ERROR_NO_BRAKET h s) = m_auto_commit s"
  "m_mysql (MYSQL_ERROR_NO_BRAKET h s) = m_mysql s"
  "m_account (MYSQL_ERROR_NO_BRAKET h s) = m_account s"
  "m_schema (MYSQL_ERROR_NO_BRAKET h s) = m_schema s"
  "m_charset (MYSQL_ERROR_NO_BRAKET h s) = m_charset s"
  "cursor (MYSQL_ERROR_NO_BRAKET h s) = cursor s"
  "reported (MYSQL_ERROR_NO_BRAKET h s) = reported s @ [Native_error h]"
  "trace (MYSQL_ERROR_NO_BRAKET h s) = trace s"
  by (simp_all add: MYSQL_ERROR_NO_BRAKET_def)

lemmas native_defs =
  mysql_init_def mysql_ssl_set_def mysql_real_connect_def mysql_stat_def mysql_select_db_def
  mysql_set_character_set_def mysql_autocommit_def mysql_close_def mysql_thread_end_def
  mysql_real_query_def mysql_store_result_def mysql_free_result_def mysql_field_count_def
  mysql_affected_rows_def mysql_next_result_def mysql_insert_id_def

lemma disconnect_simps [simp]:
  "m_mysql (disconnect s) = None"
  "m_auto_commit (disconnect s) = m_auto_commit s"
  "m_account (disconnect s) = m_account s"
  "m_schema (disconnect s) = m_schema s"
  "m_charset (disconnect s) = m_charset s"
  "cursor (disconnect s) = cursor s"
  "reported (disconnect s) = reported s"
  by (simp_all add: disconnect_def native_defs)

lemma connected_fields [simp]:
  "m_auto_commit (snd (connected L s)) = m_auto_commit s"
  "m_mysql (snd (connected L s)) = m_mysql s"
  "m_account (snd (connected L s)) = m_account s"
  "m_schema (snd (connected L s)) = m_schema s"
  "m_charset (snd (connected L s)) = m_charset s"
  "cursor (snd (connected L s)) = cursor s"
  "reported (snd (connected L s)) = reported s"
  by (simp_all add: connected_def native_defs)

lemma connected_True_iff:
  "fst (connected L s) \<longleftrightarrow> m_mysql s \<noteq> None \<and> mysql_stat_r L (length (trace s)) \<noteq> None"
  by (simp add: connected_def native_defs)

lemma connected_snd:
  "snd (connected L s) = (if m_mysql s = None then s else issue (Mysql_stat (m_mysql s)) s)"
  by (simp add: connected_def native_defs)

text \<open>A connection that \<open>connected()\<close> finds live leaves \<open>connect\<close> at its first line.\<close>

lemma connect_fast_path:
  assumes "fst (connected L s)"
  shows "connect L (Suc d) n s = Some (True, snd (connected L s))"
  using assms by (cases "connected L s") (simp add: connect_once_def connect_session_def)

text \<open>The definitions that a run on a concrete library unfolds.\<close>

lemmas run_defs =
  connect_once_def connect_session_def connect_defaults_def connect_ssl_def connect_real_def
  set_auto_commit_with_def set_schema_with_def set_charset_with_def execute_with_def
  connected_def native_defs MYSQL_ERROR_DISCONNECT_def disconnect_def create_def c_str_def

text \<open>A first run: on \<open>lib_up\<close>, a new connection for \<open>acct_plain\<close> connects with two
  native calls and no nested \<open>connect\<close>.\<close>

lemma connect_plain: "connect lib_up 1 0 (create acct_plain) = Some (True, session_up)"
  by (simp add: run_defs session_up_def acct_plain_def lib_up_def)

subsection \<open>The result loop of \<open>execute\<close>\<close>

lemma same_object_refl [simp]: "same_object s s"
  by (simp add: same_object_def)

lemma same_object_trans: "same_object s s1 \<Longrightarrow> same_object s1 s2 \<Longrightarrow> same_object s s2"
  by (simp add: same_object_def)

lemma execute_loop_pass:
  assumes "\<not> loop_stops L (cursor s)"
  shows "\<exists>s1. execute_loop L (Suc n) a s = execute_loop L n (a + result_rows L (cursor s)) s1
           \<and> cursor s1 = Suc (cursor s) \<and> same_object s s1 \<and> reported s1 = reported s
           \<and> (\<exists>t. trace s1 = trace s @ t)"
  using assms
  by (auto simp add: loop_stops_def result_is_error_def result_rows_def native_defs same_object_def)

lemma execute_loop_last:
  assumes "loop_stops L (cursor s)"
  shows "\<exists>s1. execute_loop L (Suc n) a s = Some (a + result_rows L (cursor s), s1)
           \<and> same_object s s1
           \<and> reported s1 = reported s @
                (if result_is_error L (cursor s) \<or> mysql_next_result_r L (cursor s) > 0
                 then [Native_error (m_mysql s)] else [])
           \<and> (\<exists>t. trace s1 = trace s @ t)"
  using assms
  by (auto simp add: loop_stops_def result_is_error_def result_rows_def native_defs same_object_def)

lemma execute_loop_run:
  assumes "\<forall>i<k. \<not> loop_stops L (cursor s + i)" and "loop_stops L (cursor s + k)"
  shows "\<exists>s1. execute_loop L (Suc k + m) a s =
                 Some (a + sum_list (map (result_rows L) [cursor s ..< cursor s + Suc k]), s1)
           \<and> same_object s s1
           \<and> reported s1 = reported s @
                (if result_is_error L (cursor s + k) \<or> mysql_next_result_r L (cursor s + k) > 0
                 then [Native_error (m_mysql s)] else [])
           \<and> (\<exists>t. trace s1 = trace s @ t)"
  using assms
proof (induction k arbitrary: s a)
  case 0
  then show ?case using execute_loop_last [of L s m a] by simp
next
  case (Suc k)
  from Suc.prems(1) have here: "\<not> loop_stops L (cursor s)" by force
  from execute_loop_pass [OF here, of "Suc k + m" a]
  obtain s1 where pass: "execute_loop L (Suc (Suc k + m)) a s
        = execute_loop L (Suc k + m) (a + result_rows L (cursor s)) s1"
    and cur: "cursor s1 = Suc (cursor s)" and obj: "same_object s s1"
    and rep: "reported s1 = reported s" and tr: "\<exists>t. trace s1 = trace s @ t"
    by blast
  have go: "\<forall>i<k. \<not> loop_stops L (cursor s1 + i)"
  proof (intro allI impI)
    fix i assume "i < k"
    then have "Suc i < Suc k" by simp
    with Suc.prems(1) have "\<not> loop_stops L (cursor s + Suc i)" by blast
    then show "\<not> loop_stops L (cursor s1 + i)" by (simp add: cur)
  qed
  have stop: "loop_stops L (cursor s1 + k)" using Suc.prems(2) by (simp add: cur)
  from Suc.IH [OF go stop, of "a + result_rows L (cursor s)"]
  obtain s2 where run: "execute_loop L (Suc k + m) (a + result_rows L (cursor s)) s1 =
        Some (a + result_rows L (cursor s)
              + sum_list (map (result_rows L) [cursor s1 ..< cursor s1 + Suc k]), s2)"
    and obj2: "same_object s1 s2"
    and rep2: "reported s2 = reported s1 @
                (if result_is_error L (cursor s1 + k) \<or> mysql_next_result_r L (cursor s1 + k) > 0
                 then [Native_error (m_mysql s1)] else [])"
    and tr2: "\<exists>t. trace s2 = trace s1 @ t"
    by blast
  have sum: "sum_list (map (result_rows L) [cursor s ..< cursor s + Suc (Suc k)])
      = result_rows L (cursor s) + sum_list (map (result_rows L) [cursor s1 ..< cursor s1 + Suc k])"
    by (simp add: cur upt_conv_Cons del: upt_Suc)
  have h: "m_mysql s1 = m_mysql s" using obj by (simp add: same_object_def)
  show ?case
  proof (rule exI [of _ s2], intro conjI)
    show "execute_loop L (Suc (Suc k) + m) a s =
       Some (a + sum_list (map (result_rows L) [cursor s ..< cursor s + Suc (Suc k)]), s2)"
    proof -
      have "execute_loop L (Suc (Suc k) + m) a s
          = execute_loop L (Suc k + m) (a + result_rows L (cursor s)) s1"
        using pass by (simp only: add_Suc)
      then show ?thesis by (simp only: run sum add.assoc)
    qed
    show "same_object s s2" using obj obj2 by (rule same_object_trans)
    show "reported s2 = reported s @
       (if result_is_error L (cursor s + Suc k) \<or> mysql_next_result_r L (cursor s + Suc k) > 0
        then [Native_error (m_mysql s)] else [])"
      using rep2 by (simp add: rep cur h)
    show "\<exists>t. trace s2 = trace s @ t" using tr tr2 by auto
  qed
qed

lemma execute_loop_terminates:
  "\<exists>k<n. loop_stops L (cursor s + k) \<Longrightarrow> \<exists>r. execute_loop L n a s = Some r"
proof (induction n arbitrary: s a)
  case 0
  then show ?case by simp
next
  case (Suc n)
  show ?case
  proof (cases "loop_stops L (cursor s)")
    case True
    then show ?thesis using execute_loop_last [of L s n a] by blast
  next
    case False
    from execute_loop_pass [OF False, of n a]
    obtain s1 where pass: "execute_loop L (Suc n) a s = execute_loop L n (a + result_rows L (cursor s)) s1"
      and cur: "cursor s1 = Suc (cursor s)" by blast
    from Suc.prems obtain k where k: "k < Suc n" "loop_stops L (cursor s + k)" by blast
    with False have "k \<noteq> 0" by (cases k) auto
    then obtain j where "k = Suc j" by (cases k) auto
    with k have "\<exists>j<n. loop_stops L (cursor s1 + j)" by (auto simp: cur)
    from Suc.IH [OF this, of "a + result_rows L (cursor s)"] show ?thesis
      by (simp add: pass del: execute_loop.simps)
  qed
qed


lemma execute_loop_same_object:
  "execute_loop L n a s = Some (r, s') \<Longrightarrow> same_object s s'"
proof (induction n arbitrary: s a)
  case 0
  then show ?case by simp
next
  case (Suc n)
  show ?case
  proof (cases "loop_stops L (cursor s)")
    case True
    from execute_loop_last [OF True, of n a] Suc.prems show ?thesis by auto
  next
    case False
    from execute_loop_pass [OF False, of n a]
    obtain s1 where pass: "execute_loop L (Suc n) a s = execute_loop L n (a + result_rows L (cursor s)) s1"
      and obj: "same_object s s1" by blast
    from Suc.prems pass have "execute_loop L n (a + result_rows L (cursor s)) s1 = Some (r, s')"
      by (simp del: execute_loop.simps)
    from Suc.IH [OF this] obj show ?thesis by (blast intro: same_object_trans)
  qed
qed

lemma execute_connected:
  assumes conn: "connected L s = (True, s1)"
  shows "execute L (Suc d) n stmt s =
           (case mysql_real_query L (m_mysql s1) stmt s1 of (rc, s2) \<Rightarrow>
              if rc \<noteq> 0 then Some (0, MYSQL_ERROR_NO_BRAKET (m_mysql s2) s2)
              else execute_loop L n 0 s2)"
  using connect_fast_path [of L s d n] conn by (simp add: execute_def execute_with_def)

lemma connected_same_object:
  "connected L s = (b, s1) \<Longrightarrow> same_object s s1 \<and> reported s1 = reported s \<and> cursor s1 = cursor s"
  by (auto simp add: connected_def native_defs same_object_def split: if_splits)

lemma mysql_real_query_same_object:
  "mysql_real_query L h q s = (rc, s1) \<Longrightarrow>
     same_object s s1 \<and> reported s1 = reported s \<and> cursor s1 = Suc (cursor s)"
  by (auto simp add: native_defs same_object_def)





text \<open>C4. On a connected connection whose native query call succeeds, let the loop stop
  at the \<open>k\<close>-th result after the first. \<open>execute\<close> returns. If that result is in error (no
  result set, nonzero field count), the value is the sum accumulated over the results
  before it and one error is reported. If it is not, and the advance status after it is
  positive, the value is the sum accumulated including it and one error is reported.
  Nothing is reported exactly when the result is not in error and the advance status is
  negative.\<close>

theorem execute_error_paths:
  assumes conn: "connected L s = (True, s1)"
    and qry: "mysql_real_query L (m_mysql s1) stmt s1 = (0, s2)"
    and go: "\<forall>i<k. \<not> loop_stops L (cursor s2 + i)"
    and stop: "loop_stops L (cursor s2 + k)"
  shows "\<exists>r s'. execute L (Suc d) (Suc k + m) stmt s = Some (r, s')
     \<and> (result_is_error L (cursor s2 + k) \<longrightarrow>
          r = sum_list (map (result_rows L) [cursor s2 ..< cursor s2 + k])
          \<and> reported s' = reported s @ [Native_error (m_mysql s)])
     \<and> (\<not> result_is_error L (cursor s2 + k) \<and> mysql_next_result_r L (cursor s2 + k) > 0 \<longrightarrow>
          r = sum_list (map (result_rows L) [cursor s2 ..< cursor s2 + Suc k])
          \<and> reported s' = reported s @ [Native_error (m_mysql s)])
     \<and> (reported s' = reported s \<longleftrightarrow>
          \<not> result_is_error L (cursor s2 + k) \<and> mysql_next_result_r L (cursor s2 + k) < 0)"
proof -
  from execute_loop_run [OF go stop, of m 0]
  obtain s' where run: "execute_loop L (Suc k + m) 0 s2 =
      Some (sum_list (map (result_rows L) [cursor s2 ..< cursor s2 + Suc k]), s')"
    and rep: "reported s' = reported s2 @
                (if result_is_error L (cursor s2 + k) \<or> mysql_next_result_r L (cursor s2 + k) > 0
                 then [Native_error (m_mysql s2)] else [])"
    by auto
  have ex: "execute L (Suc d) (Suc k + m) stmt s =
      Some (sum_list (map (result_rows L) [cursor s2 ..< cursor s2 + Suc k]), s')"
    by (simp only: execute_connected [OF conn] qry run prod.case if_False simp_thms)
  from connected_same_object [OF conn] mysql_real_query_same_object [OF qry]
  have same: "m_mysql s2 = m_mysql s" "reported s2 = reported s"
    by (simp_all add: same_object_def)
  have err: "sum_list (map (result_rows L) [cursor s2 ..< cursor s2 + Suc k])
      = sum_list (map (result_rows L) [cursor s2 ..< cursor s2 + k])"
    if "result_is_error L (cursor s2 + k)"
    using that by (simp add: result_is_error_def result_rows_def)
  from stop have cases: "result_is_error L (cursor s2 + k) \<or> mysql_next_result_r L (cursor s2 + k) > 0
      \<or> mysql_next_result_r L (cursor s2 + k) < 0"
    by (auto simp add: loop_stops_def)
  show ?thesis
  proof (intro exI conjI)
    show "execute L (Suc d) (Suc k + m) stmt s =
      Some (sum_list (map (result_rows L) [cursor s2 ..< cursor s2 + Suc k]), s')" by (rule ex)
    show "result_is_error L (cursor s2 + k) \<longrightarrow>
          sum_list (map (result_rows L) [cursor s2 ..< cursor s2 + Suc k])
            = sum_list (map (result_rows L) [cursor s2 ..< cursor s2 + k])
          \<and> reported s' = reported s @ [Native_error (m_mysql s)]"
      using err rep same by simp
    show "\<not> result_is_error L (cursor s2 + k) \<and> mysql_next_result_r L (cursor s2 + k) > 0 \<longrightarrow>
          sum_list (map (result_rows L) [cursor s2 ..< cursor s2 + Suc k])
            = sum_list (map (result_rows L) [cursor s2 ..< cursor s2 + Suc k])
          \<and> reported s' = reported s @ [Native_error (m_mysql s)]"
      using rep same by simp
    show "reported s' = reported s \<longleftrightarrow>
          \<not> result_is_error L (cursor s2 + k) \<and> mysql_next_result_r L (cursor s2 + k) < 0"
      using rep same cases by auto
  qed
qed

theorem execute_error_paths_witness:
  "(\<exists>s'. execute lib_bad_second 1 2 ''UPDATE t SET a = 1; CALL p()'' session_up = Some (2, s')
          \<and> reported s' = [Native_error (Some 1)])
   \<and> (\<exists>s'. execute lib_advance_fails 1 1 ''DELETE FROM t; DROP'' session_up = Some (4, s')
          \<and> reported s' = [Native_error (Some 1)])
   \<and> (\<exists>r s'. execute lib_up 1 1 ''DELETE FROM t'' session_up = Some (r, s') \<and> reported s' = [])"
proof -
  let ?s1 = "issue (Mysql_stat (Some 1)) session_up"
  let ?s2 = "\<lambda>q. (issue (Mysql_real_query (Some 1) q) ?s1)\<lparr>cursor := 1\<rparr>"
  have r: "reported session_up = []" "m_mysql session_up = Some 1"
    by (simp_all add: session_up_def create_def)
  have cur: "cursor (?s2 q) = 1" for q by simp
  have a: "\<exists>s'. execute lib_bad_second 1 2 ''UPDATE t SET a = 1; CALL p()'' session_up = Some (2, s')
          \<and> reported s' = [Native_error (Some 1)]"
  proof -
    let ?L = lib_bad_second and ?q = "''UPDATE t SET a = 1; CALL p()''"
    have h1: "connected ?L session_up = (True, ?s1)"
      by (simp add: connected_def native_defs session_up_def create_def lib_bad_second_def lib_up_def)
    have h2: "mysql_real_query ?L (m_mysql ?s1) ?q ?s1 = (0, ?s2 ?q)"
      by (simp add: native_defs session_up_def create_def lib_bad_second_def lib_up_def)
    have h3: "\<forall>i<1. \<not> loop_stops ?L (cursor (?s2 ?q) + i)"
      by (simp add: loop_stops_def result_is_error_def lib_bad_second_def lib_up_def)
    have h4: "loop_stops ?L (cursor (?s2 ?q) + 1)"
      by (simp add: loop_stops_def result_is_error_def lib_bad_second_def lib_up_def)
    have e: "result_is_error ?L (cursor (?s2 ?q) + 1)"
      by (simp add: result_is_error_def lib_bad_second_def lib_up_def)
    have v: "sum_list (map (result_rows ?L) [cursor (?s2 ?q) ..< cursor (?s2 ?q) + 1]) = 2"
      by (simp add: result_rows_def lib_bad_second_def lib_up_def)
    from execute_error_paths [OF h1 h2 h3 h4, of 0 0] e v r show ?thesis
      by (auto simp add: numeral_2_eq_2)
  qed
  have b: "\<exists>s'. execute lib_advance_fails 1 1 ''DELETE FROM t; DROP'' session_up = Some (4, s')
          \<and> reported s' = [Native_error (Some 1)]"
  proof -
    let ?L = lib_advance_fails and ?q = "''DELETE FROM t; DROP''"
    have h1: "connected ?L session_up = (True, ?s1)"
      by (simp add: connected_def native_defs session_up_def create_def lib_advance_fails_def lib_up_def)
    have h2: "mysql_real_query ?L (m_mysql ?s1) ?q ?s1 = (0, ?s2 ?q)"
      by (simp add: native_defs session_up_def create_def lib_advance_fails_def lib_up_def)
    have h3: "\<forall>i<0. \<not> loop_stops ?L (cursor (?s2 ?q) + i)" by simp
    have h4: "loop_stops ?L (cursor (?s2 ?q) + 0)"
      by (simp add: loop_stops_def result_is_error_def lib_advance_fails_def lib_up_def)
    have e: "\<not> result_is_error ?L (cursor (?s2 ?q) + 0)"
        "mysql_next_result_r ?L (cursor (?s2 ?q) + 0) > 0"
      by (simp_all add: result_is_error_def lib_advance_fails_def lib_up_def)
    have v: "sum_list (map (result_rows ?L) [cursor (?s2 ?q) ..< cursor (?s2 ?q) + Suc 0]) = 4"
      by (simp add: result_rows_def lib_advance_fails_def lib_up_def)
    from execute_error_paths [OF h1 h2 h3 h4, of 0 0] e v r show ?thesis
      by auto
  qed
  have d: "\<exists>r s'. execute lib_up 1 1 ''DELETE FROM t'' session_up = Some (r, s') \<and> reported s' = []"
  proof -
    let ?L = lib_up and ?q = "''DELETE FROM t''"
    have h1: "connected ?L session_up = (True, ?s1)"
      by (simp add: connected_def native_defs session_up_def create_def lib_up_def)
    have h2: "mysql_real_query ?L (m_mysql ?s1) ?q ?s1 = (0, ?s2 ?q)"
      by (simp add: native_defs session_up_def create_def lib_up_def)
    have h3: "\<forall>i<0. \<not> loop_stops ?L (cursor (?s2 ?q) + i)" by simp
    have h4: "loop_stops ?L (cursor (?s2 ?q) + 0)"
      by (simp add: loop_stops_def result_is_error_def lib_up_def)
    have e: "\<not> result_is_error ?L (cursor (?s2 ?q) + 0)"
        "mysql_next_result_r ?L (cursor (?s2 ?q) + 0) < 0"
      by (simp_all add: result_is_error_def lib_up_def)
    from execute_error_paths [OF h1 h2 h3 h4, of 0 0] e r show ?thesis
      by auto
  qed
  from a b d show ?thesis by blast
qed

subsection \<open>\<open>query\<close>, \<open>execute\<close> and \<open>insert\<close> on a connected connection\<close>

lemma query_connected:
  assumes conn: "connected L s = (True, s1)"
  shows "\<exists>r s'. query L (Suc d) n q s = Some (r, s') \<and> same_object s s'"
proof -
  from connected_same_object [OF conn] have o1: "same_object s s1" by simp
  obtain rc s2 where qry: "mysql_real_query L (m_mysql s1) q s1 = (rc, s2)" by (cases "mysql_real_query L (m_mysql s1) q s1")
  from mysql_real_query_same_object [OF qry] have o2: "same_object s1 s2" by simp
  have o3: "same_object s1 (MYSQL_ERROR_NO_BRAKET (m_mysql s2) s2)"
    using o2 by (simp add: same_object_def)
  from connect_fast_path [of L s d n] conn
  have "query L (Suc d) n q s =
      (if rc \<noteq> 0 then Some (Empty_ref, MYSQL_ERROR_NO_BRAKET (m_mysql s2) s2)
       else Some (Result_set (m_mysql s2), s2))"
    by (simp add: query_def qry)
  with o1 o2 o3 show ?thesis by (auto intro: same_object_trans)
qed

lemma insert_query_connected:
  assumes conn: "connected L s = (True, s1)"
  shows "\<exists>r s'. insert_query L (Suc d) n q s = Some (r, s') \<and> same_object s s'"
proof -
  from connected_same_object [OF conn] have o1: "same_object s s1" by simp
  obtain rc s2 where qry: "mysql_real_query L (m_mysql s1) q s1 = (rc, s2)" by (cases "mysql_real_query L (m_mysql s1) q s1")
  from mysql_real_query_same_object [OF qry] have o2: "same_object s1 s2" by simp
  have o3: "same_object s1 (MYSQL_ERROR_NO_BRAKET (m_mysql s2) s2)"
    using o2 by (simp add: same_object_def)
  have o4: "same_object s1 (snd (mysql_insert_id L (m_mysql s2) s2))"
    using o2 by (simp add: same_object_def native_defs)
  from connect_fast_path [of L s d n] conn
  have "insert_query L (Suc d) n q s =
      (if rc \<noteq> 0 then Some (0, MYSQL_ERROR_NO_BRAKET (m_mysql s2) s2)
       else Some (mysql_insert_id L (m_mysql s2) s2))"
    by (simp add: insert_query_def qry split: prod.splits)
  with o1 o3 o4 show ?thesis
    by (cases "mysql_insert_id L (m_mysql s2) s2") (auto intro: same_object_trans)
qed

lemma execute_connected_same_object:
  assumes conn: "connected L s = (True, s1)" and ex: "execute L (Suc d) n q s = Some (r, s')"
  shows "same_object s s'"
proof -
  from connected_same_object [OF conn] have o1: "same_object s s1" by simp
  obtain rc s2 where qry: "mysql_real_query L (m_mysql s1) q s1 = (rc, s2)" by (cases "mysql_real_query L (m_mysql s1) q s1")
  from mysql_real_query_same_object [OF qry] have o2: "same_object s1 s2" by simp
  have o3: "same_object s1 (MYSQL_ERROR_NO_BRAKET (m_mysql s2) s2)"
    using o2 by (simp add: same_object_def)
  show ?thesis
  proof (cases "rc = 0")
    case True
    with ex have "execute_loop L n 0 s2 = Some (r, s')"
      by (simp add: execute_connected [OF conn] qry)
    from execute_loop_same_object [OF this] o1 o2 show ?thesis
      by (blast intro: same_object_trans)
  next
    case False
    with ex have "s' = MYSQL_ERROR_NO_BRAKET (m_mysql s2) s2"
      by (simp add: execute_connected [OF conn] qry)
    with o1 o3 show ?thesis by (blast intro: same_object_trans)
  qed
qed

lemma execute_connected_returns:
  assumes conn: "connected L s = (True, s1)" and stop: "\<exists>k<n. loop_stops L (Suc (cursor s) + k)"
  shows "\<exists>r s'. execute L (Suc d) n q s = Some (r, s')"
proof -
  obtain rc s2 where qry: "mysql_real_query L (m_mysql s1) q s1 = (rc, s2)" by (cases "mysql_real_query L (m_mysql s1) q s1")
  from connected_same_object [OF conn] mysql_real_query_same_object [OF qry]
  have "cursor s2 = Suc (cursor s)" by simp
  with stop have "\<exists>k<n. loop_stops L (cursor s2 + k)" by simp
  from execute_loop_terminates [OF this, of 0] show ?thesis
    by (auto simp add: execute_connected [OF conn] qry)
qed

text \<open>C10. On a connection that \<open>connected()\<close> finds live, \<open>query\<close> and \<open>insert\<close> return,
  and \<open>execute\<close> returns whenever its result loop reaches a result at which it stops; each
  of the three leaves \<open>schema()\<close>, \<open>charset()\<close> and \<open>auto_commit()\<close> as they were, whatever
  the native calls answered.\<close>

theorem cached_state_frame:
  assumes conn: "connected L s = (True, s1)"
  shows "(\<exists>r s'. query L (Suc d) n q s = Some (r, s')
            \<and> schema s' = schema s \<and> charset s' = charset s \<and> auto_commit s' = auto_commit s)
     \<and> (\<exists>r s'. insert_query L (Suc d) n q s = Some (r, s')
            \<and> schema s' = schema s \<and> charset s' = charset s \<and> auto_commit s' = auto_commit s)
     \<and> (\<forall>r s'. execute L (Suc d) n q s = Some (r, s') \<longrightarrow>
            schema s' = schema s \<and> charset s' = charset s \<and> auto_commit s' = auto_commit s)
     \<and> ((\<exists>k<n. loop_stops L (Suc (cursor s) + k)) \<longrightarrow>
            (\<exists>r s'. execute L (Suc d) n q s = Some (r, s')))"
  using query_connected [OF conn, of d n q] insert_query_connected [OF conn, of d n q]
    execute_connected_same_object [OF conn, of d n q] execute_connected_returns [OF conn, of n d q]
  unfolding same_object_def schema_def charset_def auto_commit_def
  by blast

theorem cached_state_frame_witness:
  "connected lib_advance_fails session_up = (True, issue (Mysql_stat (Some 1)) session_up)
   \<and> (\<exists>r s'. execute lib_advance_fails 1 1 ''DELETE FROM t; DROP'' session_up = Some (r, s')
          \<and> schema s' = schema session_up \<and> charset s' = charset session_up
          \<and> auto_commit s' = auto_commit session_up)"
proof -
  have h1: "connected lib_advance_fails session_up = (True, issue (Mysql_stat (Some 1)) session_up)"
    by (simp add: connected_def native_defs session_up_def create_def lib_advance_fails_def lib_up_def)
  have h2: "\<exists>k<1. loop_stops lib_advance_fails (Suc (cursor session_up) + k)"
    by (simp add: loop_stops_def lib_advance_fails_def lib_up_def)
  from cached_state_frame [OF h1, of 0 1 "''DELETE FROM t; DROP''"] h1 h2 show ?thesis
    unfolding One_nat_def by blast
qed

subsection \<open>What every call of \<open>connect\<close> preserves\<close>

lemma step_ok_refl [simp]: "step_ok s s"
  by (simp add: step_ok_def)

lemma step_ok_trans: "step_ok s s1 \<Longrightarrow> step_ok s1 s2 \<Longrightarrow> step_ok s s2"
  by (auto simp add: step_ok_def)

lemma step_ok_issue [simp]: "step_ok s (issue c s)"
  by (simp add: step_ok_def)

lemma step_ok_update [simp]:
  "step_ok s (s'\<lparr>m_mysql := h\<rparr>) = step_ok s s'"
  "step_ok s (s'\<lparr>m_schema := x\<rparr>) = step_ok s s'"
  "step_ok s (s'\<lparr>m_charset := x\<rparr>) = step_ok s s'"
  "step_ok s (s'\<lparr>m_auto_commit := b\<rparr>) = step_ok s s'"
  "step_ok s (s'\<lparr>cursor := c\<rparr>) = step_ok s s'"
  "step_ok s (MYSQL_ERROR_NO_BRAKET h s') = step_ok s s'"
  "step_ok s (MARIADB_ERROR i m s') = step_ok s s'"
  by (simp_all add: step_ok_def MYSQL_ERROR_NO_BRAKET_def MARIADB_ERROR_def)

lemma step_ok_issue2 [simp]: "step_ok s s' \<Longrightarrow> step_ok s (issue c s')"
  by (auto simp add: step_ok_def)

lemma step_ok_disconnect [simp]: "step_ok s s' \<Longrightarrow> step_ok s (disconnect s')"
  by (auto simp add: step_ok_def disconnect_def native_defs)

lemma step_ok_connected: "step_ok s (snd (connected L s))"
  by (simp add: connected_snd)

lemma execute_loop_step_ok:
  "execute_loop L n a s = Some (r, s') \<Longrightarrow> step_ok s s'"
proof (induction n arbitrary: s a)
  case 0
  then show ?case by simp
next
  case (Suc n)
  show ?case
  proof (cases "loop_stops L (cursor s)")
    case True
    from execute_loop_last [OF True, of n a] Suc.prems
    have "same_object s s'" "\<exists>t. trace s' = trace s @ t" by auto
    then show ?thesis by (simp add: step_ok_def same_object_def)
  next
    case False
    from execute_loop_pass [OF False, of n a]
    obtain s1 where pass: "execute_loop L (Suc n) a s = execute_loop L n (a + result_rows L (cursor s)) s1"
      and obj: "same_object s s1" and tr: "\<exists>t. trace s1 = trace s @ t" by blast
    from obj tr have one: "step_ok s s1" by (simp add: step_ok_def same_object_def)
    from Suc.prems pass have "execute_loop L n (a + result_rows L (cursor s)) s1 = Some (r, s')"
      by (simp del: execute_loop.simps)
    from Suc.IH [OF this] one show ?thesis by (blast intro: step_ok_trans)
  qed
qed

lemma set_schema_with_ok:
  assumes "conn_ok conn" and "set_schema_with conn L name s = Some (ok, s')"
  shows "step_ok s s' \<and> (ok \<longrightarrow> m_mysql s' \<noteq> None)"
  using assms
  by (auto simp add: set_schema_with_def conn_ok_def native_defs
      split: option.splits bool.splits if_splits intro: step_ok_trans)

lemma set_auto_commit_with_ok:
  assumes "conn_ok conn" and "set_auto_commit_with conn L flag s = Some (ok, s')"
  shows "step_ok s s' \<and> (ok \<longrightarrow> m_mysql s \<noteq> None \<longrightarrow> m_mysql s' \<noteq> None)"
  using assms
  by (auto simp add: set_auto_commit_with_def conn_ok_def native_defs
      split: option.splits bool.splits if_splits intro: step_ok_trans)

lemma execute_with_ok:
  assumes "conn_ok conn" and "execute_with conn L n q s = Some (cnt, s')"
  shows "step_ok s s' \<and> (cnt \<noteq> 0 \<longrightarrow> m_mysql s' \<noteq> None)"
proof (cases "conn s")
  case None
  with assms(2) show ?thesis by (simp add: execute_with_def)
next
  case (Some r)
  obtain ok s1 where r: "r = (ok, s1)" by (cases r)
  from assms(1) Some r have c: "step_ok s s1" "ok \<longrightarrow> m_mysql s1 \<noteq> None"
    by (auto simp add: conn_ok_def)
  show ?thesis
  proof (cases ok)
    case False
    with assms(2) Some r c show ?thesis by (simp add: execute_with_def)
  next
    case True
    obtain rc s2 where q: "mysql_real_query L (m_mysql s1) q s1 = (rc, s2)"
      by (cases "mysql_real_query L (m_mysql s1) q s1")
    from q have s2: "step_ok s1 s2" "m_mysql s2 = m_mysql s1" by (auto simp add: native_defs)
    show ?thesis
    proof (cases "rc = 0")
      case False
      with assms(2) Some r True q c s2 show ?thesis
        by (auto simp add: execute_with_def intro: step_ok_trans)
    next
      case rc: True
      with assms(2) Some r True q have l: "execute_loop L n 0 s2 = Some (cnt, s')"
        by (simp add: execute_with_def)
      from execute_loop_step_ok [OF l] execute_loop_same_object [OF l] c s2 True
      show ?thesis by (auto simp add: same_object_def intro: step_ok_trans)
    qed
  qed
qed

lemma connect_options_ok:
  assumes ex: "\<And>q s cnt s'. exec q s = Some (cnt, s') \<Longrightarrow>
                 step_ok s s' \<and> (cnt \<noteq> 0 \<longrightarrow> m_mysql s' \<noteq> None)"
  shows "connect_options exec opts s = Some (ok, s') \<Longrightarrow>
           step_ok s s' \<and> (ok \<longrightarrow> m_mysql s \<noteq> None \<longrightarrow> m_mysql s' \<noteq> None)"
proof (induction opts arbitrary: s)
  case Nil
  then show ?case by auto
next
  case (Cons pair rest)
  from Cons.prems obtain cnt s1 where
    e: "exec (c_str (''SET OPTION '' @ fst pair @ ''='' @ snd pair)) s = Some (cnt, s1)"
    by (auto split: option.splits)
  from ex [OF e] have one: "step_ok s s1" "cnt \<noteq> 0 \<longrightarrow> m_mysql s1 \<noteq> None" by auto
  show ?case
  proof (cases "cnt = 1")
    case True
    with Cons.prems e have "connect_options exec rest s1 = Some (ok, s')" by simp
    from Cons.IH [OF this] one True show ?thesis by (auto intro: step_ok_trans)
  next
    case False
    with Cons.prems e have "ok = False" "s' = MYSQL_ERROR_DISCONNECT (m_mysql s1) s1" by auto
    with one show ?thesis by (simp add: MYSQL_ERROR_DISCONNECT_def)
  qed
qed

lemma connect_ssl_ok:
  "connect_ssl L s = (b, s') \<Longrightarrow> step_ok s s' \<and> m_mysql s' = m_mysql s"
  by (auto simp add: connect_ssl_def native_defs Let_def split: if_splits)

lemma connect_real_ok:
  "connect_real L s = (b, s') \<Longrightarrow> step_ok s s' \<and> m_mysql s' = m_mysql s"
  by (auto simp add: connect_real_def native_defs Let_def split: if_splits)


lemma connect_session_ok:
  "connect_session L s = Inl (b, s') \<Longrightarrow> step_ok s s' \<and> (b \<longrightarrow> m_mysql s' \<noteq> None)"
  "connect_session L s = Inr s4 \<Longrightarrow> step_ok s s4 \<and> m_mysql s4 \<noteq> None"
proof -
  obtain b0 s0 where c: "connected L s = (b0, s0)" by (cases "connected L s")
  from c have s0: "step_ok s s0" "m_mysql s0 = m_mysql s" "b0 \<longrightarrow> m_mysql s \<noteq> None"
    by (auto simp add: connected_def native_defs split: if_splits)
  obtain h s1 where i: "mysql_init L s0 = (h, s1)" by (cases "mysql_init L s0")
  define s2 where "s2 = s1\<lparr>m_mysql := h\<rparr>"
  from i s0 have s2: "step_ok s s2" "m_mysql s2 = h"
    by (auto simp add: s2_def native_defs intro: step_ok_trans)
  obtain b3 s3 where t: "connect_ssl L s2 = (b3, s3)" by (cases "connect_ssl L s2")
  from connect_ssl_ok [OF t] s2 have s3: "step_ok s s3" "m_mysql s3 = h"
    by (auto intro: step_ok_trans)
  obtain b4 s4' where r: "connect_real L s3 = (b4, s4')" by (cases "connect_real L s3")
  from connect_real_ok [OF r] s3 have s4: "step_ok s s4'" "m_mysql s4' = h"
    by (auto intro: step_ok_trans)
  have eq: "connect_session L s =
      (if b0 then Inl (True, s0)
       else if h = None then Inl (False, MARIADB_ERROR 0 ''Cannot create MYSQL object.'' s2)
       else if \<not> b3 then Inl (False, s3)
       else if \<not> b4 then Inl (False, s4')
       else Inr s4')"
    using c i t r s2 by (auto simp add: connect_session_def s2_def Let_def)
  show "connect_session L s = Inl (b, s') \<Longrightarrow> step_ok s s' \<and> (b \<longrightarrow> m_mysql s' \<noteq> None)"
    using s0 s2 s3 s4 by (auto simp add: eq split: if_splits)
  show "connect_session L s = Inr s4 \<Longrightarrow> step_ok s s4 \<and> m_mysql s4 \<noteq> None"
    using s0 s2 s3 s4 by (auto simp add: eq split: if_splits)
qed

lemma connect_defaults_ok:
  assumes ok: "conn_ok conn" and h: "m_mysql s4 \<noteq> None"
  shows "connect_defaults conn L s4 = Some (Inl (b, s')) \<Longrightarrow>
           step_ok s4 s' \<and> \<not> b \<and> m_mysql s' = None"
    and "connect_defaults conn L s4 = Some (Inr s6) \<Longrightarrow> step_ok s4 s6 \<and> m_mysql s6 \<noteq> None"
proof -
  let ?a = "set_auto_commit_with conn L (account_auto_commit (m_account s4)) s4"
  have both: "(connect_defaults conn L s4 = Some (Inl (b, s')) \<longrightarrow>
                 step_ok s4 s' \<and> \<not> b \<and> m_mysql s' = None)
            \<and> (connect_defaults conn L s4 = Some (Inr s6) \<longrightarrow> step_ok s4 s6 \<and> m_mysql s6 \<noteq> None)"
  proof (cases ?a)
    case None
    then show ?thesis by (simp add: connect_defaults_def)
  next
    case (Some r)
    obtain b5 s5 where r: "r = (b5, s5)" by (cases r)
    from set_auto_commit_with_ok [OF ok, of L _ s4 b5 s5] Some r h
    have s5: "step_ok s4 s5" "b5 \<longrightarrow> m_mysql s5 \<noteq> None" by auto
    show ?thesis
    proof (cases b5)
      case False
      with Some r s5 show ?thesis
        by (auto simp add: connect_defaults_def MYSQL_ERROR_DISCONNECT_def)
    next
      case b5: True
      show ?thesis
      proof (cases "account_schema (m_account s5) = []")
        case True
        with Some r b5 s5 show ?thesis by (auto simp add: connect_defaults_def)
      next
        case False
        show ?thesis
        proof (cases "set_schema_with conn L (c_str (account_schema (m_account s5))) s5")
          case None
          with Some r b5 False show ?thesis by (simp add: connect_defaults_def)
        next
          case d: (Some r6)
          obtain b6 s6' where r6: "r6 = (b6, s6')" by (cases r6)
          from set_schema_with_ok [OF ok, of L _ s5 b6 s6'] d r6 s5
          have s6: "step_ok s4 s6'" "b6 \<longrightarrow> m_mysql s6' \<noteq> None"
            by (auto intro: step_ok_trans)
          from Some r b5 False d r6 s6 show ?thesis
            by (cases b6) (auto simp add: connect_defaults_def MYSQL_ERROR_DISCONNECT_def)
        qed
      qed
    qed
  qed
  from both show "connect_defaults conn L s4 = Some (Inl (b, s')) \<Longrightarrow>
           step_ok s4 s' \<and> \<not> b \<and> m_mysql s' = None" by blast
  from both show "connect_defaults conn L s4 = Some (Inr s6) \<Longrightarrow>
           step_ok s4 s6 \<and> m_mysql s6 \<noteq> None" by blast
qed

lemma connect_once_ok:
  assumes ok: "conn_ok conn"
  shows "conn_ok (connect_once conn L n)"
  unfolding conn_ok_def
proof (intro allI impI)
  fix s b s' assume run: "connect_once conn L n s = Some (b, s')"
  show "step_ok s s' \<and> (b \<longrightarrow> m_mysql s' \<noteq> None)"
  proof (cases "connect_session L s")
    case (Inl r)
    with run connect_session_ok(1) [of L s b s'] show ?thesis
      by (auto simp add: connect_once_def)
  next
    case (Inr s4)
    from connect_session_ok(2) [OF Inr] have s4: "step_ok s s4" "m_mysql s4 \<noteq> None" by auto
    from run Inr obtain res where u: "connect_defaults conn L s4 = Some res"
      by (auto simp add: connect_once_def split: option.splits)
    show ?thesis
    proof (cases res)
      case (Inl r)
      with run Inr u connect_defaults_ok(1) [OF ok s4(2), of L b s'] s4 show ?thesis
        by (auto simp add: connect_once_def intro: step_ok_trans)
    next
      case (Inr s6)
      with run \<open>connect_session L s = Inr s4\<close> u
      have o: "connect_options (execute_with conn L n) (options (m_account s6)) s6 = Some (b, s')"
        by (simp add: connect_once_def)
      from connect_defaults_ok(2) [OF ok s4(2), of L s6] u Inr s4
      have s6: "step_ok s s6" "m_mysql s6 \<noteq> None" by (auto intro: step_ok_trans)
      from connect_options_ok [of "execute_with conn L n", OF execute_with_ok [OF ok] o] s6
      show ?thesis by (auto intro: step_ok_trans)
    qed
  qed
qed

lemma connect_ok: "conn_ok (connect L d n)"
  by (induction d) (simp_all add: conn_ok_def [of "\<lambda>s. None"] connect_once_ok)

lemma connect_True_handle:
  "connect L d n s = Some (True, s') \<Longrightarrow> m_mysql s' \<noteq> None"
  using connect_ok [of L d n] by (auto simp add: conn_ok_def)

lemma connect_step_ok:
  "connect L d n s = Some (b, s') \<Longrightarrow> step_ok s s'"
  using connect_ok [of L d n] by (auto simp add: conn_ok_def)

subsection \<open>A result does not depend on the bounds given\<close>

text \<open>When \<open>connect\<close> returns within \<open>d\<close> nested activations and \<open>n\<close> loop iterations, it
  returns the same with any larger bounds: the bounds only say how far a run is followed.\<close>

lemma execute_loop_mono:
  "execute_loop L n a s = Some r \<Longrightarrow> n \<le> n' \<Longrightarrow> execute_loop L n' a s = Some r"
proof (induction n arbitrary: n' a s)
  case 0
  then show ?case by simp
next
  case (Suc n)
  from Suc.prems(2) obtain m where m: "n' = Suc m" "n \<le> m" by (cases n') auto
  from Suc.prems(1) Suc.IH [where n' = m] m(2) show ?case
    unfolding m(1)
    by (auto split: prod.splits sum.splits if_splits)
qed

lemma set_schema_with_mono:
  "conn_le c c' \<Longrightarrow> set_schema_with c L name s = Some r \<Longrightarrow> set_schema_with c' L name s = Some r"
  by (auto simp add: conn_le_def set_schema_with_def split: option.splits bool.splits)

lemma set_charset_with_mono:
  "conn_le c c' \<Longrightarrow> set_charset_with c L v s = Some r \<Longrightarrow> set_charset_with c' L v s = Some r"
  by (auto simp add: conn_le_def set_charset_with_def split: option.splits bool.splits)

lemma set_auto_commit_with_mono:
  "conn_le c c' \<Longrightarrow> set_auto_commit_with c L flag s = Some r \<Longrightarrow>
     set_auto_commit_with c' L flag s = Some r"
  by (auto simp add: conn_le_def set_auto_commit_with_def split: option.splits bool.splits if_splits)

lemma execute_with_mono:
  assumes "conn_le c c'" and "n \<le> n'" and "execute_with c L n q s = Some r"
  shows "execute_with c' L n' q s = Some r"
proof -
  from assms(3) obtain b s1 where c: "c s = Some (b, s1)"
    by (auto simp add: execute_with_def split: option.splits)
  with assms(1) have c': "c' s = Some (b, s1)" by (simp add: conn_le_def)
  from assms(3) c c' execute_loop_mono [OF _ assms(2)] show ?thesis
    by (auto simp add: execute_with_def split: bool.splits prod.splits if_splits)
qed

lemma connect_options_mono:
  assumes "\<And>q s r. exec q s = Some r \<Longrightarrow> exec' q s = Some r"
  shows "connect_options exec opts s = Some r \<Longrightarrow> connect_options exec' opts s = Some r"
proof (induction opts arbitrary: s)
  case Nil
  then show ?case by simp
next
  case (Cons pair rest)
  from Cons.prems obtain cnt s1 where
    e: "exec (c_str (''SET OPTION '' @ fst pair @ ''='' @ snd pair)) s = Some (cnt, s1)"
    by (auto split: option.splits)
  from assms [OF e] Cons.prems e Cons.IH [of s1] show ?case
    by (auto split: if_splits)
qed

lemma connect_defaults_mono:
  assumes le: "conn_le c c'" and run: "connect_defaults c L s4 = Some r"
  shows "connect_defaults c' L s4 = Some r"
proof -
  let ?f = "account_auto_commit (m_account s4)"
  from run obtain b5 s5 where a: "set_auto_commit_with c L ?f s4 = Some (b5, s5)"
    by (auto simp add: connect_defaults_def split: option.splits)
  from set_auto_commit_with_mono [OF le a] have a': "set_auto_commit_with c' L ?f s4 = Some (b5, s5)" .
  show ?thesis
  proof (cases "b5 \<and> account_schema (m_account s5) \<noteq> []")
    case False
    with run a a' show ?thesis by (cases b5) (auto simp add: connect_defaults_def)
  next
    case True
    with run a obtain b6 s6 where
      d: "set_schema_with c L (c_str (account_schema (m_account s5))) s5 = Some (b6, s6)"
      by (auto simp add: connect_defaults_def split: option.splits)
    from set_schema_with_mono [OF le d] run a a' d True show ?thesis
      by (auto simp add: connect_defaults_def)
  qed
qed

lemma connect_once_mono:
  assumes le: "conn_le c c'" and n: "n \<le> n'"
  shows "conn_le (connect_once c L n) (connect_once c' L n')"
  unfolding conn_le_def
proof (intro allI impI)
  fix s r assume run: "connect_once c L n s = Some r"
  show "connect_once c' L n' s = Some r"
  proof (cases "connect_session L s")
    case (Inl x)
    with run show ?thesis by (simp add: connect_once_def)
  next
    case (Inr s4)
    with run obtain res where d: "connect_defaults c L s4 = Some res"
      by (auto simp add: connect_once_def split: option.splits)
    from connect_defaults_mono [OF le d] have d': "connect_defaults c' L s4 = Some res" .
    show ?thesis
    proof (cases res)
      case (Inl x)
      with run Inr d d' show ?thesis by (simp add: connect_once_def)
    next
      case s6: (Inr s6)
      with run Inr d
      have "connect_options (execute_with c L n) (options (m_account s6)) s6 = Some r"
        by (simp add: connect_once_def)
      from connect_options_mono [of "execute_with c L n" "execute_with c' L n'", OF _ this]
        execute_with_mono [OF le n]
      have "connect_options (execute_with c' L n') (options (m_account s6)) s6 = Some r"
        by blast
      with Inr d' s6 show ?thesis by (simp add: connect_once_def)
    qed
  qed
qed

lemma connect_mono_step: "n \<le> n' \<Longrightarrow> conn_le (connect L d n) (connect L (Suc d) n')"
proof (induction d)
  case 0
  show ?case by (simp add: conn_le_def)
next
  case (Suc d)
  from connect_once_mono [OF Suc.IH [OF Suc.prems] Suc.prems, of L] show ?case by simp
qed

lemma connect_mono_loop: "n \<le> n' \<Longrightarrow> conn_le (connect L d n) (connect L d n')"
proof (induction d)
  case 0
  show ?case by (simp add: conn_le_def)
next
  case (Suc d)
  from connect_once_mono [OF Suc.IH [OF Suc.prems] Suc.prems, of L] show ?case by simp
qed

lemma connect_mono:
  assumes "connect L d n s = Some r" and "d \<le> d'" and "n \<le> n'"
  shows "connect L d' n' s = Some r"
proof -
  have "connect L (d + k) n s = Some r" for k
  proof (induction k)
    case 0
    from assms(1) show ?case by simp
  next
    case (Suc k)
    from connect_mono_step [of n n L "d + k"] Suc show ?case
      by (cases r) (auto simp add: conn_le_def simp del: connect.simps)
  qed
  from this [of "d' - d"] assms(2) have "connect L d' n s = Some r" by simp
  with connect_mono_loop [OF assms(3), of L d'] show ?thesis
    by (cases r) (auto simp add: conn_le_def simp del: connect.simps)
qed

subsection \<open>The setters\<close>

lemma connect_when_connected:
  assumes "fst (connected L s)" and "connect L d n s = Some (b, s1)"
  shows "b \<and> s1 = snd (connected L s)"
proof (cases d)
  case 0
  with assms(2) show ?thesis by simp
next
  case (Suc d')
  with assms connect_fast_path [OF assms(1), of d' n] show ?thesis by simp
qed

lemma option_fst_True:
  "map_option fst c = Some True \<Longrightarrow> c = Some (True, snd (the c))"
  by (cases c) auto

text \<open>A new connection for an account whose default schema is \<open>db1\<close>: \<open>set_schema("db2")\<close>
  first connects, which selects \<open>db1\<close> and caches it; then the native call for \<open>db2\<close> fails.
  \<open>set_schema\<close> returns \<open>false\<close>, and \<open>schema()\<close>, empty before the call, is \<open>db1\<close>.\<close>

theorem set_schema_cache_counterexample:
  "map_option fst (set_schema lib_select_once (Suc (Suc 0)) 0 ''db2'' (create acct_db1)) = Some False
   \<and> map_option (schema \<circ> snd) (set_schema lib_select_once (Suc (Suc 0)) 0 ''db2'' (create acct_db1))
       = Some ''db1''
   \<and> schema (create acct_db1) = []
   \<and> map_option (trace \<circ> snd) (set_schema lib_select_once (Suc (Suc 0)) 0 ''db2'' (create acct_db1))
       = Some [Mysql_init, Mysql_real_connect (Some 1) ''db.example'' ''app'' ''secret'' 3306 None,
               Mysql_stat (Some 1), Mysql_select_db (Some 1) ''db1'',
               Mysql_select_db (Some 1) ''db2'']"
  by (simp add: set_schema_def run_defs schema_def acct_db1_def acct_plain_def lib_select_once_def lib_up_def)

text \<open>C5, amended. Let the \<open>connect\<close> at the head of \<open>set_schema(name)\<close> return \<open>true\<close>, in state
  \<open>s1\<close>. If the native select-database call fails, \<open>set_schema\<close> returns \<open>false\<close>, the cached
  schema is the one of \<open>s1\<close>, the session handle is kept, and the only native call issued after
  the connect is that \<open>mysql_select_db\<close> (the connection is not disconnected). If the call
  succeeds, \<open>set_schema\<close> returns \<open>true\<close> and the cached schema is \<open>name\<close>. When the connection was
  already connected, the cached schema of \<open>s1\<close> is the one from before the call.\<close>

theorem set_schema_result:
  assumes conn: "connect L d n s = Some (True, s1)"
  shows "(fst (mysql_select_db L (m_mysql s1) name s1) \<noteq> 0 \<longrightarrow>
            (\<exists>s'. set_schema L d n name s = Some (False, s') \<and> schema s' = schema s1
               \<and> m_mysql s' = m_mysql s1 \<and> m_mysql s' \<noteq> None
               \<and> trace s' = trace s1 @ [Mysql_select_db (m_mysql s1) name]))
       \<and> (fst (mysql_select_db L (m_mysql s1) name s1) = 0 \<longrightarrow>
            (\<exists>s'. set_schema L d n name s = Some (True, s') \<and> schema s' = name))
       \<and> (fst (connected L s) \<longrightarrow> schema s1 = schema s)"
proof (intro conjI impI)
  assume "fst (mysql_select_db L (m_mysql s1) name s1) \<noteq> 0"
  with conn connect_True_handle [OF conn]
  show "\<exists>s'. set_schema L d n name s = Some (False, s') \<and> schema s' = schema s1
               \<and> m_mysql s' = m_mysql s1 \<and> m_mysql s' \<noteq> None
               \<and> trace s' = trace s1 @ [Mysql_select_db (m_mysql s1) name]"
    by (simp add: set_schema_def set_schema_with_def mysql_select_db_def schema_def)
next
  assume "fst (mysql_select_db L (m_mysql s1) name s1) = 0"
  with conn show "\<exists>s'. set_schema L d n name s = Some (True, s') \<and> schema s' = name"
    by (simp add: set_schema_def set_schema_with_def mysql_select_db_def schema_def)
next
  assume "fst (connected L s)"
  from connect_when_connected [OF this conn] show "schema s1 = schema s"
    by (simp add: schema_def)
qed

theorem set_schema_result_witness:
  "connect lib_select_once 2 0 (create acct_db1)
     = Some (True, snd (the (connect lib_select_once 2 0 (create acct_db1))))
   \<and> (\<exists>s'. set_schema lib_select_once 2 0 ''db2'' (create acct_db1) = Some (False, s')
          \<and> schema s' = ''db1'' \<and> m_mysql s' = Some 1)"
proof -
  let ?c = "connect lib_select_once 2 0 (create acct_db1)"
  have e: "map_option fst ?c = Some True"
      "map_option (trace \<circ> snd) ?c = Some [Mysql_init,
          Mysql_real_connect (Some 1) ''db.example'' ''app'' ''secret'' 3306 None,
          Mysql_stat (Some 1), Mysql_select_db (Some 1) ''db1'']"
      "map_option (schema \<circ> snd) ?c = Some ''db1''"
      "map_option (m_mysql \<circ> snd) ?c = Some (Some 1)"
    by (simp_all add: numeral_2_eq_2 run_defs schema_def acct_db1_def acct_plain_def
        lib_select_once_def lib_up_def)
  from option_fst_True [OF e(1)] have h: "?c = Some (True, snd (the ?c))" .
  from e h have f: "trace (snd (the ?c)) = [Mysql_init,
          Mysql_real_connect (Some 1) ''db.example'' ''app'' ''secret'' 3306 None,
          Mysql_stat (Some 1), Mysql_select_db (Some 1) ''db1'']"
      "schema (snd (the ?c)) = ''db1''" "m_mysql (snd (the ?c)) = Some 1"
    by (cases ?c; simp)+
  have len: "length (trace (snd (the ?c))) = 4" by (simp add: f)
  have g: "fst (mysql_select_db lib_select_once (m_mysql (snd (the ?c))) ''db2'' (snd (the ?c))) \<noteq> 0"
    unfolding mysql_select_db_def fst_conv len by (simp add: lib_select_once_def lib_up_def)
  from set_schema_result [OF h, of "''db2''"] g h f show ?thesis by auto
qed


text \<open>A new connection for an account whose autocommit default is off:
  \<open>set_auto_commit(false)\<close> first connects, which switches autocommit off and caches that;
  then its own native call fails. It returns \<open>false\<close>, and \<open>auto_commit()\<close>, \<open>true\<close> before the
  call, is \<open>false\<close>.\<close>

theorem set_auto_commit_cache_counterexample:
  "map_option fst (set_auto_commit lib_autocommit_once (Suc (Suc 0)) 0 False (create acct_manual))
       = Some False
   \<and> map_option (auto_commit \<circ> snd)
        (set_auto_commit lib_autocommit_once (Suc (Suc 0)) 0 False (create acct_manual)) = Some False
   \<and> auto_commit (create acct_manual) = True
   \<and> map_option (trace \<circ> snd)
        (set_auto_commit lib_autocommit_once (Suc (Suc 0)) 0 False (create acct_manual))
       = Some [Mysql_init, Mysql_real_connect (Some 1) ''db.example'' ''app'' ''secret'' 3306 None,
               Mysql_stat (Some 1), Mysql_autocommit (Some 1) False,
               Mysql_autocommit (Some 1) False]"
  by (simp add: set_auto_commit_def run_defs auto_commit_def acct_manual_def acct_plain_def
      lib_autocommit_once_def lib_up_def)


text \<open>C6, amended. \<open>set_auto_commit(flag)\<close> with \<open>flag\<close> equal to the cached value returns
  \<open>true\<close> and leaves the state, trace included, as it is: no native call, no \<open>connect\<close> (it
  returns even when \<open>connect\<close> is given no activation at all). Otherwise, let the \<open>connect\<close>
  at its head return \<open>true\<close>, in state \<open>s1\<close>: on native success it returns \<open>true\<close> and the
  cache is \<open>flag\<close>; on native failure it returns \<open>false\<close> and the cache is the one of \<open>s1\<close>,
  which is the one from before the call when the connection was already connected.\<close>

theorem set_auto_commit_result:
  "(m_auto_commit s = flag \<longrightarrow> set_auto_commit L d n flag s = Some (True, s))
   \<and> (m_auto_commit s \<noteq> flag \<and> connect L d n s = Some (True, s1) \<longrightarrow>
        (fst (mysql_autocommit L (m_mysql s1) flag s1) = 0 \<longrightarrow>
           (\<exists>s'. set_auto_commit L d n flag s = Some (True, s') \<and> auto_commit s' = flag))
      \<and> (fst (mysql_autocommit L (m_mysql s1) flag s1) \<noteq> 0 \<longrightarrow>
           (\<exists>s'. set_auto_commit L d n flag s = Some (False, s')
              \<and> auto_commit s' = auto_commit s1))
      \<and> (fst (connected L s) \<longrightarrow> auto_commit s1 = auto_commit s))"
proof (intro conjI impI)
  assume "m_auto_commit s = flag"
  then show "set_auto_commit L d n flag s = Some (True, s)"
    by (simp add: set_auto_commit_def set_auto_commit_with_def)
next
  assume a: "m_auto_commit s \<noteq> flag \<and> connect L d n s = Some (True, s1)"
    and "fst (mysql_autocommit L (m_mysql s1) flag s1) = 0"
  then show "\<exists>s'. set_auto_commit L d n flag s = Some (True, s') \<and> auto_commit s' = flag"
    by (simp add: set_auto_commit_def set_auto_commit_with_def mysql_autocommit_def auto_commit_def)
next
  assume a: "m_auto_commit s \<noteq> flag \<and> connect L d n s = Some (True, s1)"
    and "fst (mysql_autocommit L (m_mysql s1) flag s1) \<noteq> 0"
  then show "\<exists>s'. set_auto_commit L d n flag s = Some (False, s') \<and> auto_commit s' = auto_commit s1"
    by (simp add: set_auto_commit_def set_auto_commit_with_def mysql_autocommit_def auto_commit_def)
next
  assume a: "m_auto_commit s \<noteq> flag \<and> connect L d n s = Some (True, s1)"
    and c: "fst (connected L s)"
  from a have "connect L d n s = Some (True, s1)" by simp
  from connect_when_connected [OF c this] show "auto_commit s1 = auto_commit s"
    by (simp add: auto_commit_def)
qed

theorem set_auto_commit_result_witness:
  "set_auto_commit lib_up 0 0 True (create acct_plain) = Some (True, create acct_plain)
   \<and> (\<exists>s'. set_auto_commit lib_autocommit_once 2 0 False (create acct_manual) = Some (False, s')
          \<and> auto_commit s' = False)
   \<and> (\<exists>s'. set_auto_commit lib_up 1 0 False session_up = Some (True, s')
          \<and> auto_commit s' = False)"
proof -
  have a: "set_auto_commit lib_up 0 0 True (create acct_plain) = Some (True, create acct_plain)"
    using set_auto_commit_result [of "create acct_plain" True lib_up 0 0]
    by (simp add: create_def)
  let ?c = "connect lib_autocommit_once 2 0 (create acct_manual)"
  have e: "map_option fst ?c = Some True"
      "map_option (trace \<circ> snd) ?c = Some [Mysql_init,
          Mysql_real_connect (Some 1) ''db.example'' ''app'' ''secret'' 3306 None,
          Mysql_stat (Some 1), Mysql_autocommit (Some 1) False]"
      "map_option (auto_commit \<circ> snd) ?c = Some False"
    by (simp_all add: numeral_2_eq_2 run_defs auto_commit_def acct_manual_def acct_plain_def
        lib_autocommit_once_def lib_up_def)
  from option_fst_True [OF e(1)] have h: "?c = Some (True, snd (the ?c))" .
  from e h have f: "trace (snd (the ?c)) = [Mysql_init,
          Mysql_real_connect (Some 1) ''db.example'' ''app'' ''secret'' 3306 None,
          Mysql_stat (Some 1), Mysql_autocommit (Some 1) False]"
      "auto_commit (snd (the ?c)) = False"
    by (cases ?c; simp)+
  have len: "length (trace (snd (the ?c))) = 4" by (simp add: f)
  have g: "fst (mysql_autocommit lib_autocommit_once (m_mysql (snd (the ?c))) False (snd (the ?c))) \<noteq> 0"
    unfolding mysql_autocommit_def fst_conv len
    by (simp add: lib_autocommit_once_def lib_up_def)
  have m: "m_auto_commit (create acct_manual) \<noteq> False" by (simp add: create_def)
  from set_auto_commit_result [of "create acct_manual" False lib_autocommit_once 2 0 "snd (the ?c)"]
    m h g f
  have b: "\<exists>s'. set_auto_commit lib_autocommit_once 2 0 False (create acct_manual) = Some (False, s')
          \<and> auto_commit s' = False"
    by auto
  let ?s1 = "issue (Mysql_stat (Some 1)) session_up"
  have c1: "fst (connected lib_up session_up)" "snd (connected lib_up session_up) = ?s1"
    by (simp_all add: connected_def native_defs session_up_def create_def lib_up_def)
  from connect_fast_path [OF c1(1), of 0 0] c1
  have c2: "connect lib_up 1 0 session_up = Some (True, ?s1)" by simp
  have c3: "m_auto_commit session_up \<noteq> False" by (simp add: session_up_def create_def)
  have c4: "fst (mysql_autocommit lib_up (m_mysql ?s1) False ?s1) = 0"
    by (simp add: mysql_autocommit_def lib_up_def)
  from set_auto_commit_result [of session_up False lib_up 1 0 ?s1] c2 c3 c4
  have c: "\<exists>s'. set_auto_commit lib_up 1 0 False session_up = Some (True, s')
          \<and> auto_commit s' = False"
    by auto
  from a b c show ?thesis by blast
qed

subsection \<open>Termination of \<open>connect\<close>\<close>

lemma step_ok_length: "step_ok s s' \<Longrightarrow> length (trace s) \<le> length (trace s')"
  by (auto simp add: step_ok_def)

lemma settled_step: "settled t0 s \<Longrightarrow> step_ok s s' \<Longrightarrow> m_mysql s' \<noteq> None \<Longrightarrow> settled t0 s'"
  using step_ok_length [of s s'] by (simp add: settled_def)

lemma fast_path_ok: "conn_ok (fast_path L)"
  by (auto simp add: conn_ok_def fast_path_def connected_def native_defs split: if_splits bool.splits)

lemma fast_path_settled:
  assumes live: "\<forall>t>t0. mysql_stat_r L t \<noteq> None" and s: "settled t0 s"
  shows "fast_path L s = Some (True, issue (Mysql_stat (m_mysql s)) s)"
  using assms by (auto simp add: fast_path_def connected_def native_defs settled_def)

lemma connect_settled:
  assumes live: "\<forall>t>t0. mysql_stat_r L t \<noteq> None" and s: "settled t0 s"
  shows "connect L (Suc d) n s = fast_path L s"
proof -
  from assms have "fst (connected L s)" by (simp add: connected_True_iff settled_def)
  from connect_fast_path [OF this, of d n] fast_path_settled [OF assms] s show ?thesis
    by (simp add: connected_snd settled_def)
qed

lemma connect_session_settled:
  "connect_session L s = Inr s4 \<Longrightarrow> settled (length (trace s)) s4"
proof -
  assume r: "connect_session L s = Inr s4"
  obtain b0 s0 where c: "connected L s = (b0, s0)" by (cases "connected L s")
  from c have s0: "length (trace s) \<le> length (trace s0)"
    by (auto simp add: connected_def native_defs split: if_splits)
  obtain h s1 where i: "mysql_init L s0 = (h, s1)" by (cases "mysql_init L s0")
  define s2 where "s2 = s1\<lparr>m_mysql := h\<rparr>"
  from i s0 have s2: "length (trace s) < length (trace s2)" "m_mysql s2 = h"
    by (auto simp add: s2_def native_defs)
  obtain b3 s3 where t: "connect_ssl L s2 = (b3, s3)" by (cases "connect_ssl L s2")
  from connect_ssl_ok [OF t] s2 step_ok_length [of s2 s3]
  have s3: "length (trace s) < length (trace s3)" "m_mysql s3 = h" by auto
  obtain b4 s4' where r4: "connect_real L s3 = (b4, s4')" by (cases "connect_real L s3")
  from connect_real_ok [OF r4] s3 step_ok_length [of s3 s4']
  have s4: "length (trace s) < length (trace s4')" "m_mysql s4' = h" by auto
  from r c i t r4 s2 have "s4 = s4' \<and> h \<noteq> None"
    by (auto simp add: connect_session_def s2_def Let_def split: if_splits bool.splits)
  with s4 show ?thesis by (simp add: settled_def)
qed

text \<open>Two connectors that coincide on settled states give the same setters there.\<close>

lemma connect_defaults_agree:
  assumes agree: "\<And>sx. settled t0 sx \<Longrightarrow> conn sx = conn' sx"
    and ok: "conn_ok conn'" and s4: "settled t0 s4"
  shows "connect_defaults conn L s4 = connect_defaults conn' L s4"
proof -
  let ?f = "account_auto_commit (m_account s4)"
  have a: "set_auto_commit_with conn L ?f s4 = set_auto_commit_with conn' L ?f s4"
    by (simp add: set_auto_commit_with_def agree [OF s4])
  show ?thesis
  proof (cases "set_auto_commit_with conn' L ?f s4")
    case None
    with a show ?thesis by (simp add: connect_defaults_def)
  next
    case (Some r)
    obtain b5 s5 where r: "r = (b5, s5)" by (cases r)
    show ?thesis
    proof (cases b5)
      case False
      with a Some r show ?thesis by (simp add: connect_defaults_def)
    next
      case True
      from set_auto_commit_with_ok [OF ok, of L ?f s4 b5 s5] Some r True s4
      have "step_ok s4 s5" "m_mysql s5 \<noteq> None" by (auto simp add: settled_def)
      with s4 have "settled t0 s5" by (rule settled_step)
      then have "set_schema_with conn L (c_str (account_schema (m_account s5))) s5
          = set_schema_with conn' L (c_str (account_schema (m_account s5))) s5"
        by (simp add: set_schema_with_def agree)
      with a Some r True show ?thesis by (simp add: connect_defaults_def)
    qed
  qed
qed

lemma connect_options_agree:
  assumes agree: "\<And>sx. settled t0 sx \<Longrightarrow> conn sx = conn' sx"
    and ok: "conn_ok conn'"
  shows "settled t0 s \<Longrightarrow>
    connect_options (execute_with conn L n) opts s = connect_options (execute_with conn' L n) opts s"
proof (induction opts arbitrary: s)
  case Nil
  show ?case by simp
next
  case (Cons pair rest)
  let ?q = "c_str (''SET OPTION '' @ fst pair @ ''='' @ snd pair)"
  have e: "execute_with conn L n ?q s = execute_with conn' L n ?q s"
    by (simp add: execute_with_def agree [OF Cons.prems])
  show ?case
  proof (cases "execute_with conn' L n ?q s")
    case None
    with e show ?thesis by simp
  next
    case (Some r)
    obtain cnt s1 where r: "r = (cnt, s1)" by (cases r)
    show ?thesis
    proof (cases "cnt = 1")
      case False
      with e Some r show ?thesis by simp
    next
      case True
      from execute_with_ok [OF ok, of L n ?q s cnt s1] Some r True
      have "step_ok s s1" "m_mysql s1 \<noteq> None" by auto
      with Cons.prems have "settled t0 s1" by (rule settled_step)
      from Cons.IH [OF this] e Some r True show ?thesis by simp
    qed
  qed
qed

lemma connect_once_agree:
  assumes agree: "\<And>sx. settled (length (trace s)) sx \<Longrightarrow> conn sx = conn' sx"
    and ok: "conn_ok conn'"
  shows "connect_once conn L n s = connect_once conn' L n s"
proof (cases "connect_session L s")
  case (Inl r)
  then show ?thesis by (simp add: connect_once_def)
next
  case (Inr s4)
  from connect_session_settled [OF Inr] have s4: "settled (length (trace s)) s4" .
  from connect_defaults_agree [of "length (trace s)" conn conn', OF agree ok s4]
  have d: "connect_defaults conn L s4 = connect_defaults conn' L s4" .
  show ?thesis
  proof (cases "connect_defaults conn' L s4")
    case None
    with Inr d show ?thesis by (simp add: connect_once_def)
  next
    case (Some res)
    show ?thesis
    proof (cases res)
      case (Inl r)
      with Inr d Some show ?thesis by (simp add: connect_once_def)
    next
      case s6: (Inr s6)
      from connect_defaults_ok(2) [OF ok, of s4 L s6] Some s6 s4
      have "step_ok s4 s6" "m_mysql s6 \<noteq> None" by (auto simp add: settled_def)
      with s4 have "settled (length (trace s)) s6" by (rule settled_step)
      from connect_options_agree [of "length (trace s)" conn conn', OF agree ok this]
        Inr d Some s6 show ?thesis by (simp add: connect_once_def)
    qed
  qed
qed


lemma set_auto_commit_with_fast_returns:
  assumes live: "\<forall>t>t0. mysql_stat_r L t \<noteq> None" and s: "settled t0 s"
  shows "\<exists>r. set_auto_commit_with (fast_path L) L flag s = Some r"
  by (auto simp add: set_auto_commit_with_def fast_path_settled [OF assms] split: prod.splits)

lemma set_schema_with_fast_returns:
  assumes live: "\<forall>t>t0. mysql_stat_r L t \<noteq> None" and s: "settled t0 s"
  shows "\<exists>r. set_schema_with (fast_path L) L name s = Some r"
  by (auto simp add: set_schema_with_def fast_path_settled [OF assms] split: prod.splits)

lemma execute_with_fast_returns:
  assumes live: "\<forall>t>t0. mysql_stat_r L t \<noteq> None" and s: "settled t0 s"
    and chains: "\<forall>c. \<exists>k<K. loop_stops L (c + k)"
  shows "\<exists>r. execute_with (fast_path L) L K q s = Some r"
proof -
  let ?s1 = "issue (Mysql_stat (m_mysql s)) s"
  obtain rc s2 where qr: "mysql_real_query L (m_mysql ?s1) q ?s1 = (rc, s2)"
    by (cases "mysql_real_query L (m_mysql ?s1) q ?s1")
  from chains have "\<exists>k<K. loop_stops L (cursor s2 + k)" by blast
  from execute_loop_terminates [OF this, of 0] qr show ?thesis
    by (auto simp add: execute_with_def fast_path_settled [OF live s])
qed

lemma connect_defaults_fast_returns:
  assumes live: "\<forall>t>t0. mysql_stat_r L t \<noteq> None" and s4: "settled t0 s4"
  shows "\<exists>r. connect_defaults (fast_path L) L s4 = Some r"
proof -
  let ?f = "account_auto_commit (m_account s4)"
  from set_auto_commit_with_fast_returns [OF live s4, of ?f]
  obtain b5 s5 where a: "set_auto_commit_with (fast_path L) L ?f s4 = Some (b5, s5)" by auto
  show ?thesis
  proof (cases "b5 \<and> account_schema (m_account s5) \<noteq> []")
    case False
    with a show ?thesis by (cases b5) (auto simp add: connect_defaults_def)
  next
    case True
    from set_auto_commit_with_ok [OF fast_path_ok a] True s4
    have "step_ok s4 s5" "m_mysql s5 \<noteq> None" by (auto simp add: settled_def)
    with s4 have "settled t0 s5" by (rule settled_step)
    from set_schema_with_fast_returns [OF live this, of "c_str (account_schema (m_account s5))"]
    obtain b6 s6 where "set_schema_with (fast_path L) L (c_str (account_schema (m_account s5))) s5 = Some (b6, s6)"
      by auto
    with a True show ?thesis by (cases b6) (auto simp add: connect_defaults_def)
  qed
qed

lemma connect_options_fast_returns:
  assumes live: "\<forall>t>t0. mysql_stat_r L t \<noteq> None"
    and chains: "\<forall>c. \<exists>k<K. loop_stops L (c + k)"
  shows "settled t0 s \<Longrightarrow> \<exists>r. connect_options (execute_with (fast_path L) L K) opts s = Some r"
proof (induction opts arbitrary: s)
  case Nil
  show ?case by auto
next
  case (Cons pair rest)
  let ?q = "c_str (''SET OPTION '' @ fst pair @ ''='' @ snd pair)"
  from execute_with_fast_returns [OF live Cons.prems chains, of ?q]
  obtain cnt s1 where e: "execute_with (fast_path L) L K ?q s = Some (cnt, s1)" by auto
  show ?case
  proof (cases "cnt = 1")
    case False
    with e show ?thesis by auto
  next
    case True
    from execute_with_ok [OF fast_path_ok e] True
    have "step_ok s s1" "m_mysql s1 \<noteq> None" by auto
    with Cons.prems have "settled t0 s1" by (rule settled_step)
    from Cons.IH [OF this] e True show ?thesis by simp
  qed
qed

lemma connect_once_fast_returns:
  assumes live: "\<forall>t>length (trace s). mysql_stat_r L t \<noteq> None"
    and chains: "\<forall>c. \<exists>k<K. loop_stops L (c + k)"
  shows "\<exists>r. connect_once (fast_path L) L K s = Some r"
proof (cases "connect_session L s")
  case (Inl r)
  then show ?thesis by (simp add: connect_once_def)
next
  case (Inr s4)
  from connect_session_settled [OF Inr] have s4: "settled (length (trace s)) s4" .
  from connect_defaults_fast_returns [OF live s4]
  obtain res where d: "connect_defaults (fast_path L) L s4 = Some res" by auto
  show ?thesis
  proof (cases res)
    case (Inl r)
    with Inr d show ?thesis by (simp add: connect_once_def)
  next
    case s6: (Inr s6)
    from connect_defaults_ok(2) [where conn = "fast_path L" and L = L and ?s4.0 = s4 and ?s6.0 = s6,
        OF fast_path_ok] d s6 s4
    have "step_ok s4 s6" "m_mysql s6 \<noteq> None" by (auto simp add: settled_def)
    with s4 have "settled (length (trace s)) s6" by (rule settled_step)
    from connect_options_fast_returns [OF live chains this, of "options (m_account s6)"]
      Inr d s6 show ?thesis by (simp add: connect_once_def)
  qed
qed

text \<open>On a library whose probe fails right after the first handshake, the \<open>connect\<close> that
  \<open>set_auto_commit\<close> calls inside \<open>connect\<close> does not return at its first line: it sets up a
  second session, and calls \<open>connect\<close> again itself. One re-entry is not enough (\<open>None\<close>
  with two activations), two are.\<close>

theorem connect_reentry_counterexample:
  "connect lib_flaky 2 1 (create acct_manual) = None
   \<and> map_option fst (connect lib_flaky 3 1 (create acct_manual)) = Some True
   \<and> map_option (trace \<circ> snd) (connect lib_flaky 3 1 (create acct_manual))
       = Some [Mysql_init, Mysql_real_connect (Some 1) ''db.example'' ''app'' ''secret'' 3306 None,
               Mysql_stat (Some 1),
               Mysql_init, Mysql_real_connect (Some 1) ''db.example'' ''app'' ''secret'' 3306 None,
               Mysql_stat (Some 1), Mysql_autocommit (Some 1) False,
               Mysql_autocommit (Some 1) False]"
  by (simp add: numeral_2_eq_2 numeral_3_eq_3 run_defs acct_manual_def acct_plain_def
      lib_flaky_def lib_up_def)

text \<open>On a library whose probe always fails, \<open>connect\<close> for an account whose autocommit
  default differs from the connection's never returns, whatever it is given.\<close>

lemma connect_never_returns:
  "m_auto_commit s \<Longrightarrow> m_account s = acct_manual \<Longrightarrow> connect lib_dead d n s = None"
proof (induction d arbitrary: s)
  case 0
  show ?case by simp
next
  case (Suc d)
  obtain b0 s0 where c: "connected lib_dead s = (b0, s0)" by (cases "connected lib_dead s")
  from connected_True_iff [of lib_dead s] c have b0: "\<not> b0" by (simp add: lib_dead_def)
  from connected_fields(1,3) [of lib_dead s] c Suc.prems
  have s0: "m_auto_commit s0" "m_account s0 = acct_manual" by simp_all
  let ?s4 = "issue (Mysql_real_connect (Some 1) ''db.example'' ''app'' ''secret'' 3306 None)
      ((issue Mysql_init s0)\<lparr>m_mysql := Some 1\<rparr>)"
  have s4: "connect_session lib_dead s = Inr ?s4"
    using c b0 s0(2)
    by (simp add: connect_session_def connect_ssl_def connect_real_def native_defs Let_def
        c_str_def acct_manual_def acct_plain_def lib_dead_def lib_up_def)
  have "m_auto_commit ?s4" "m_account ?s4 = acct_manual" using s0 by simp_all
  from Suc.IH [OF this] have "connect lib_dead d n ?s4 = None" .
  then have "connect_defaults (connect lib_dead d n) lib_dead ?s4 = None"
    using s0 by (simp add: connect_defaults_def set_auto_commit_with_def acct_manual_def)
  with s4 show ?case by (simp add: connect_once_def)
qed

text \<open>C9, amended. If every liveness probe issued after the first native call of this
  \<open>connect\<close> reports the session live, and every chain of statement results stops within
  \<open>K\<close> results, then \<open>connect\<close> returns; it returns the same with every number of
  activations from two on, that is with one re-entry, and what it returns is what it returns
  when the nested calls can do nothing but leave at the first line.\<close>

theorem connect_terminates:
  assumes live: "\<forall>t>length (trace s). mysql_stat_r L t \<noteq> None"
    and chains: "\<forall>c. \<exists>k<K. loop_stops L (c + k)"
  shows "\<exists>r. connect_once (fast_path L) L K s = Some r \<and> (\<forall>d. connect L (Suc (Suc d)) K s = Some r)"
proof -
  from connect_once_fast_returns [OF live chains]
  obtain r where r: "connect_once (fast_path L) L K s = Some r" by blast
  have "connect L (Suc (Suc d)) K s = Some r" for d
  proof -
    have "connect_once (connect L (Suc d) K) L K s = connect_once (fast_path L) L K s"
    proof (rule connect_once_agree [OF _ fast_path_ok])
      fix sx assume "settled (length (trace s)) sx"
      with live show "connect L (Suc d) K sx = fast_path L sx" by (rule connect_settled)
    qed
    with r show ?thesis by simp
  qed
  with r show ?thesis by blast
qed



theorem connect_terminates_witness:
  "\<exists>r. connect_once (fast_path lib_up) lib_up 1 (create acct_full) = Some r
       \<and> (\<forall>d. connect lib_up (Suc (Suc d)) 1 (create acct_full) = Some r)"
proof -
  have live: "\<forall>t>length (trace (create acct_full)). mysql_stat_r lib_up t \<noteq> None"
    by (simp add: lib_up_def)
  have chains: "\<forall>c. \<exists>k<1. loop_stops lib_up (c + k)"
    by (simp add: loop_stops_def lib_up_def)
  from connect_terminates [OF live chains] show ?thesis .
qed

subsection \<open>The option loop of \<open>connect\<close>\<close>

lemma issued_between_trans:
  assumes "step_ok s s1" and "step_ok s1 s2"
  shows "issued_between s s2 = issued_between s s1 @ issued_between s1 s2"
  using assms by (auto simp add: step_ok_def issued_between_def)

lemma issued_between_issue [simp]: "issued_between s (issue c s) = [c]"
  by (simp add: issued_between_def)


lemma connect_options_False_handle:
  "connect_options exec opts s = Some (False, s') \<Longrightarrow> m_mysql s' = None"
  by (induction opts arbitrary: s) (auto simp add: MYSQL_ERROR_DISCONNECT_def split: option.splits if_splits)






lemma c_str_prefix: "\<exists>rest. x = c_str x @ rest"
  by (metis c_str_def takeWhile_dropWhile_id)









subsection \<open>Idempotence of \<open>connect\<close>\<close>

lemma handshakes_simps [simp]:
  "handshakes [] = 0"
  "handshakes (c # tr) = (if is_handshake c then Suc (handshakes tr) else handshakes tr)"
  "handshakes (tr @ tr') = handshakes tr + handshakes tr'"
  by (simp_all add: handshakes_def)

lemma allocations_simps [simp]:
  "allocations [] = 0"
  "allocations (c # tr) = (if is_allocation c then Suc (allocations tr) else allocations tr)"
  "allocations (tr @ tr') = allocations tr + allocations tr'"
  by (simp_all add: allocations_def)

lemma quiet_refl [simp]: "quiet s s"
  by (simp add: quiet_def)

lemma quiet_trans: "quiet s s1 \<Longrightarrow> quiet s1 s2 \<Longrightarrow> quiet s s2"
  by (auto simp add: quiet_def)

lemma quiet_step_ok: "quiet s s' \<Longrightarrow> step_ok s s'"
  by (auto simp add: quiet_def step_ok_def)

lemma quiet_issued:
  "quiet s s' \<Longrightarrow> handshakes (issued_between s s') = 0 \<and> allocations (issued_between s s') = 0"
  by (auto simp add: quiet_def issued_between_def)

lemma quiet_update [simp]:
  "quiet s (s'\<lparr>m_mysql := h\<rparr>) = quiet s s'"
  "quiet s (s'\<lparr>m_schema := x\<rparr>) = quiet s s'"
  "quiet s (s'\<lparr>m_charset := x\<rparr>) = quiet s s'"
  "quiet s (s'\<lparr>m_auto_commit := b\<rparr>) = quiet s s'"
  "quiet s (s'\<lparr>cursor := c\<rparr>) = quiet s s'"
  "quiet s (MYSQL_ERROR_NO_BRAKET h s') = quiet s s'"
  "quiet s (MARIADB_ERROR i m s') = quiet s s'"
  by (simp_all add: quiet_def MYSQL_ERROR_NO_BRAKET_def MARIADB_ERROR_def)

lemma quiet_issue: "\<not> is_handshake c \<Longrightarrow> \<not> is_allocation c \<Longrightarrow> quiet s s' \<Longrightarrow> quiet s (issue c s')"
  by (auto simp add: quiet_def)

lemma quiet_disconnect: "quiet s s' \<Longrightarrow> quiet s (disconnect s')"
  by (auto simp add: quiet_def disconnect_def native_defs)

lemma execute_loop_pass_quiet:
  assumes "\<not> loop_stops L (cursor s)"
  shows "\<exists>s1. execute_loop L (Suc n) a s = execute_loop L n (a + result_rows L (cursor s)) s1
           \<and> quiet s s1"
  using assms
  by (auto simp add: loop_stops_def result_is_error_def result_rows_def native_defs quiet_def)

lemma execute_loop_last_quiet:
  assumes "loop_stops L (cursor s)"
  shows "\<exists>s1. execute_loop L (Suc n) a s = Some (a + result_rows L (cursor s), s1) \<and> quiet s s1"
  using assms
  by (auto simp add: loop_stops_def result_is_error_def result_rows_def native_defs quiet_def)

lemma execute_loop_quiet:
  "execute_loop L n a s = Some (r, s') \<Longrightarrow> quiet s s'"
proof (induction n arbitrary: s a)
  case 0
  then show ?case by simp
next
  case (Suc n)
  show ?case
  proof (cases "loop_stops L (cursor s)")
    case True
    from execute_loop_last_quiet [OF True, of n a] Suc.prems show ?thesis by auto
  next
    case False
    from execute_loop_pass_quiet [OF False, of n a]
    obtain s1 where pass: "execute_loop L (Suc n) a s = execute_loop L n (a + result_rows L (cursor s)) s1"
      and one: "quiet s s1" by blast
    from Suc.prems pass have "execute_loop L n (a + result_rows L (cursor s)) s1 = Some (r, s')"
      by (simp del: execute_loop.simps)
    from Suc.IH [OF this] one show ?thesis by (blast intro: quiet_trans)
  qed
qed

lemma set_schema_with_quiet:
  assumes "conn_quiet conn" and "set_schema_with conn L name s = Some (ok, s')"
  shows "quiet s s'"
  using assms
  by (auto simp add: set_schema_with_def conn_quiet_def native_defs
      split: option.splits bool.splits if_splits intro!: quiet_issue)

lemma set_auto_commit_with_quiet:
  assumes "conn_quiet conn" and "set_auto_commit_with conn L flag s = Some (ok, s')"
  shows "quiet s s'"
  using assms
  by (auto simp add: set_auto_commit_with_def conn_quiet_def native_defs
      split: option.splits bool.splits if_splits intro!: quiet_issue)

lemma execute_with_quiet:
  assumes q: "conn_quiet conn" and run: "execute_with conn L n stmt s = Some (cnt, s')"
  shows "quiet s s'"
proof -
  from run obtain b s1 where c: "conn s = Some (b, s1)"
    by (auto simp add: execute_with_def split: option.splits)
  from q c have s1: "quiet s s1" by (auto simp add: conn_quiet_def)
  show ?thesis
  proof (cases b)
    case False
    with run c s1 show ?thesis by (simp add: execute_with_def)
  next
    case True
    let ?s2 = "snd (mysql_real_query L (m_mysql s1) stmt s1)"
    have s2: "quiet s ?s2" using s1 by (auto simp add: native_defs intro!: quiet_issue)
    show ?thesis
    proof (cases "fst (mysql_real_query L (m_mysql s1) stmt s1) = 0")
      case False
      with run c True s2 show ?thesis
        by (auto simp add: execute_with_def split: prod.splits)
    next
      case rc: True
      with run c True have "execute_loop L n 0 ?s2 = Some (cnt, s')"
        by (auto simp add: execute_with_def split: prod.splits)
      from execute_loop_quiet [OF this] s2 show ?thesis by (blast intro: quiet_trans)
    qed
  qed
qed

lemma connect_options_quiet:
  assumes q: "conn_quiet conn"
  shows "connect_options (execute_with conn L n) opts s = Some (ok, s') \<Longrightarrow> quiet s s'"
proof (induction opts arbitrary: s)
  case Nil
  then show ?case by auto
next
  case (Cons pair rest)
  from Cons.prems obtain cnt s1 where
    e: "execute_with conn L n (c_str (''SET OPTION '' @ fst pair @ ''='' @ snd pair)) s
          = Some (cnt, s1)"
    by (auto split: option.splits)
  from execute_with_quiet [OF q e] have one: "quiet s s1" .
  show ?case
  proof (cases "cnt = 1")
    case True
    with Cons.prems e have "connect_options (execute_with conn L n) rest s1 = Some (ok, s')" by simp
    from Cons.IH [OF this] one show ?thesis by (blast intro: quiet_trans)
  next
    case False
    with Cons.prems e have "s' = MYSQL_ERROR_DISCONNECT (m_mysql s1) s1" by auto
    with one show ?thesis by (simp add: MYSQL_ERROR_DISCONNECT_def quiet_disconnect)
  qed
qed

lemma connect_defaults_quiet:
  assumes q: "conn_quiet conn"
  shows "connect_defaults conn L s4 = Some (Inl (b, s')) \<Longrightarrow> quiet s4 s'"
    and "connect_defaults conn L s4 = Some (Inr s6) \<Longrightarrow> quiet s4 s6"
proof -
  let ?a = "set_auto_commit_with conn L (account_auto_commit (m_account s4)) s4"
  have both: "(connect_defaults conn L s4 = Some (Inl (b, s')) \<longrightarrow> quiet s4 s')
            \<and> (connect_defaults conn L s4 = Some (Inr s6) \<longrightarrow> quiet s4 s6)"
  proof (cases ?a)
    case None
    then show ?thesis by (simp add: connect_defaults_def)
  next
    case (Some r)
    obtain b5 s5 where r: "r = (b5, s5)" by (cases r)
    from set_auto_commit_with_quiet [OF q, of L _ s4 b5 s5] Some r
    have s5: "quiet s4 s5" by auto
    show ?thesis
    proof (cases b5)
      case False
      with Some r s5 show ?thesis
        by (auto simp add: connect_defaults_def MYSQL_ERROR_DISCONNECT_def quiet_disconnect)
    next
      case b5: True
      show ?thesis
      proof (cases "account_schema (m_account s5) = []")
        case True
        with Some r b5 s5 show ?thesis by (auto simp add: connect_defaults_def)
      next
        case False
        show ?thesis
        proof (cases "set_schema_with conn L (c_str (account_schema (m_account s5))) s5")
          case None
          with Some r b5 False show ?thesis by (simp add: connect_defaults_def)
        next
          case d: (Some r6)
          obtain b6 s6' where r6: "r6 = (b6, s6')" by (cases r6)
          from set_schema_with_quiet [OF q, of L _ s5 b6 s6'] d r6 s5
          have s6: "quiet s4 s6'" by (auto intro: quiet_trans)
          from Some r b5 False d r6 s6 show ?thesis
            by (cases b6) (auto simp add: connect_defaults_def MYSQL_ERROR_DISCONNECT_def quiet_disconnect)
        qed
      qed
    qed
  qed
  from both show "connect_defaults conn L s4 = Some (Inl (b, s')) \<Longrightarrow> quiet s4 s'" by blast
  from both show "connect_defaults conn L s4 = Some (Inr s6) \<Longrightarrow> quiet s4 s6" by blast
qed


lemma once_quiet: "once s s1 \<Longrightarrow> quiet s1 s2 \<Longrightarrow> once s s2"
  by (auto simp add: once_def quiet_def)

lemma quiet_once: "quiet s s' \<Longrightarrow> once s s'"
  by (auto simp add: once_def quiet_def)

lemma once_issued:
  "once s s' \<Longrightarrow> handshakes (issued_between s s') \<le> 1 \<and> allocations (issued_between s s') \<le> 1"
  by (auto simp add: once_def issued_between_def)

lemma connect_session_once:
  "connect_session L s = Inl (b, s') \<Longrightarrow> once s s'"
  "connect_session L s = Inr s4 \<Longrightarrow> once s s4"
  by (auto simp add: connect_session_def connected_def connect_ssl_def connect_real_def native_defs
      Let_def once_def MARIADB_ERROR_def MYSQL_ERROR_NO_BRAKET_def
      split: if_splits prod.splits bool.splits)

lemma connect_once_once:
  assumes q: "conn_quiet conn" and run: "connect_once conn L n s = Some (b, s')"
  shows "once s s'"
proof (cases "connect_session L s")
  case (Inl r)
  with run connect_session_once(1) [of L s b s'] show ?thesis
    by (auto simp add: connect_once_def)
next
  case (Inr s4)
  from connect_session_once(2) [OF Inr] have s4: "once s s4" .
  from run Inr obtain res where u: "connect_defaults conn L s4 = Some res"
    by (auto simp add: connect_once_def split: option.splits)
  show ?thesis
  proof (cases res)
    case (Inl r)
    with run Inr u connect_defaults_quiet(1) [OF q, of L s4 b s'] s4 show ?thesis
      by (auto simp add: connect_once_def intro: once_quiet)
  next
    case s6: (Inr s6)
    with run Inr u
    have o: "connect_options (execute_with conn L n) (options (m_account s6)) s6 = Some (b, s')"
      by (simp add: connect_once_def)
    from connect_defaults_quiet(2) [OF q, of L s4 s6] u s6 have "quiet s4 s6" by simp
    with s4 have "once s s6" by (rule once_quiet)
    from this connect_options_quiet [OF q o] show ?thesis by (rule once_quiet)
  qed
qed

lemma fast_path_quiet: "conn_quiet (fast_path L)"
  by (auto simp add: conn_quiet_def fast_path_def connected_def native_defs quiet_def
      split: if_splits bool.splits)

lemma connect_live_once:
  assumes live: "\<forall>t>length (trace s). mysql_stat_r L t \<noteq> None"
    and run: "connect L d n s = Some (b, s')"
  shows "once s s'"
proof (cases d)
  case 0
  with run show ?thesis by simp
next
  case (Suc d')
  show ?thesis
  proof (cases d')
    case 0
    have "conn_quiet (\<lambda>s. None)" by (simp add: conn_quiet_def)
    from connect_once_once [OF this, of L n s b s'] run Suc 0 show ?thesis by simp
  next
    case d'': (Suc d'')
    have "connect_once (connect L (Suc d'') n) L n s = connect_once (fast_path L) L n s"
    proof (rule connect_once_agree [OF _ fast_path_ok])
      fix sx assume "settled (length (trace s)) sx"
      with live show "connect L (Suc d'') n sx = fast_path L sx" by (rule connect_settled)
    qed
    with run Suc d'' have "connect_once (fast_path L) L n s = Some (b, s')" by simp
    from connect_once_once [OF fast_path_quiet this] show ?thesis .
  qed
qed

text \<open>Every \<open>connect\<close> that returns has issued a native call.\<close>

lemma connect_session_grows:
  "connect_session L s = Inl (b, s') \<Longrightarrow> length (trace s) < length (trace s')"
  by (auto simp add: connect_session_def connected_def connect_ssl_def connect_real_def native_defs
      Let_def MARIADB_ERROR_def MYSQL_ERROR_NO_BRAKET_def
      split: if_splits prod.splits bool.splits)

lemma connect_grows:
  assumes run: "connect L d n s = Some (b, s')"
  shows "length (trace s) < length (trace s')"
proof (cases d)
  case 0
  with run show ?thesis by simp
next
  case (Suc d')
  let ?conn = "connect L d' n"
  have ok: "conn_ok ?conn" by (rule connect_ok)
  from run Suc have once: "connect_once ?conn L n s = Some (b, s')" by simp
  show ?thesis
  proof (cases "connect_session L s")
    case (Inl r)
    with once have "connect_session L s = Inl (b, s')" by (simp add: connect_once_def)
    then show ?thesis by (rule connect_session_grows)
  next
    case (Inr s4)
    from connect_session_settled [OF Inr]
    have s4: "length (trace s) < length (trace s4)" "m_mysql s4 \<noteq> None"
      by (simp_all add: settled_def)
    from once Inr obtain res where u: "connect_defaults ?conn L s4 = Some res"
      by (auto simp add: connect_once_def split: option.splits)
    have "step_ok s4 s'"
    proof (cases res)
      case (Inl r)
      with once Inr u have "connect_defaults ?conn L s4 = Some (Inl (b, s'))"
        by (simp add: connect_once_def)
      from connect_defaults_ok(1) [OF ok s4(2) this] show ?thesis by simp
    next
      case s6: (Inr s6)
      with once Inr u
      have o: "connect_options (execute_with ?conn L n) (options (m_account s6)) s6 = Some (b, s')"
        by (simp add: connect_once_def)
      from u s6 have "connect_defaults ?conn L s4 = Some (Inr s6)" by simp
      from connect_defaults_ok(2) [OF ok s4(2) this] have a: "step_ok s4 s6" by simp
      from connect_options_ok [of "execute_with ?conn L n", OF execute_with_ok [OF ok] o]
      have "step_ok s6 s'" by simp
      with a show ?thesis by (rule step_ok_trans)
    qed
    from step_ok_length [OF this] s4(1) show ?thesis by simp
  qed
qed

text \<open>On the library whose probe fails once right after the first handshake, a first
  \<open>connect\<close> returns \<open>true\<close> after two allocations and two handshakes, without a
  \<open>mysql_close\<close>, and the second \<open>connect\<close> finds the connection live: the two calls in a row
  have performed the handshake twice.\<close>

theorem connect_twice_counterexample:
  "map_option fst (connect lib_flaky 3 1 (create acct_manual)) = Some True
   \<and> map_option (fst \<circ> connected lib_flaky \<circ> snd) (connect lib_flaky 3 1 (create acct_manual))
       = Some True
   \<and> map_option fst (connect_twice lib_flaky 3 1 (create acct_manual)) = Some True
   \<and> map_option (trace \<circ> snd) (connect_twice lib_flaky 3 1 (create acct_manual))
       = Some [Mysql_init, Mysql_real_connect (Some 1) ''db.example'' ''app'' ''secret'' 3306 None,
               Mysql_stat (Some 1),
               Mysql_init, Mysql_real_connect (Some 1) ''db.example'' ''app'' ''secret'' 3306 None,
               Mysql_stat (Some 1), Mysql_autocommit (Some 1) False,
               Mysql_autocommit (Some 1) False,
               Mysql_stat (Some 1)]
   \<and> map_option (handshakes \<circ> trace \<circ> snd) (connect_twice lib_flaky 3 1 (create acct_manual))
       = Some 2
   \<and> map_option (length \<circ> filter (\<lambda>c. c = Mysql_close (Some 1)) \<circ> trace \<circ> snd)
        (connect_twice lib_flaky 3 1 (create acct_manual)) = Some 0"
  by (simp add: connect_twice_def numeral_3_eq_3 run_defs acct_manual_def acct_plain_def
      lib_flaky_def lib_up_def)

text \<open>C3, amended. On a connection that \<open>connected()\<close> finds live, \<open>connect\<close> returns \<open>true\<close>
  at once: the members of the object are unchanged and the only native call is the probe
  of \<open>connected()\<close>, so no session handle is allocated and no handshake performed. Hence,
  when a first \<open>connect\<close> has returned \<open>true\<close> and the connection is still found live, a
  second \<open>connect\<close> returns \<open>true\<close> and adds neither a handshake nor an allocation to those of
  the first. And when a first \<open>connect\<close> returns \<open>true\<close> and every probe answered after its
  first native call reports the session live, the second of two calls in a row returns
  \<open>true\<close> having issued its probe only, and the two calls together perform at most one
  handshake and one allocation.\<close>

theorem connect_idempotent:
  "(connected L s = (True, s1) \<longrightarrow>
      connect L (Suc d) n s = Some (True, s1) \<and> same_object s s1
      \<and> issued_between s s1 = [Mysql_stat (m_mysql s)])
   \<and> (connect L d0 n0 s0 = Some (True, s) \<and> fst (connected L s) \<longrightarrow>
        (\<exists>s'. connect L (Suc d) n s = Some (True, s')
           \<and> handshakes (issued_between s0 s') = handshakes (issued_between s0 s)
           \<and> allocations (issued_between s0 s') = allocations (issued_between s0 s)))
   \<and> (connect L d0 n0 s0 = Some (True, s)
        \<and> (\<forall>t>length (trace s0). mysql_stat_r L t \<noteq> None) \<longrightarrow>
        (\<exists>s'. connect_twice L d0 n0 s0 = Some (True, s')
           \<and> issued_between s s' = [Mysql_stat (m_mysql s)]
           \<and> handshakes (issued_between s0 s') \<le> 1
           \<and> allocations (issued_between s0 s') \<le> 1))"
proof (intro conjI impI)
  assume c: "connected L s = (True, s1)"
  then have f: "fst (connected L s)" "s1 = snd (connected L s)" by simp_all
  from f(1) have h: "m_mysql s \<noteq> None" by (simp add: connected_True_iff)
  from connect_fast_path [OF f(1), of d n] f(2)
  show "connect L (Suc d) n s = Some (True, s1)" by simp
  from connected_same_object [OF c] show "same_object s s1" by simp
  from f(2) h show "issued_between s s1 = [Mysql_stat (m_mysql s)]"
    by (auto simp add: connected_snd)
next
  assume a: "connect L d0 n0 s0 = Some (True, s) \<and> fst (connected L s)"
  then have first: "connect L d0 n0 s0 = Some (True, s)" and f: "fst (connected L s)" by simp_all
  let ?s' = "snd (connected L s)"
  from f have h: "m_mysql s \<noteq> None" by (simp add: connected_True_iff)
  from connect_step_ok [OF first] have a1: "step_ok s0 s" .
  have a2: "step_ok s ?s'" by (rule step_ok_connected)
  have i: "issued_between s ?s' = [Mysql_stat (m_mysql s)]" using h by (auto simp add: connected_snd)
  from issued_between_trans [OF a1 a2] i
  have eq: "issued_between s0 ?s' = issued_between s0 s @ [Mysql_stat (m_mysql s)]" by simp
  from connect_fast_path [OF f, of d n] eq
  show "\<exists>s'. connect L (Suc d) n s = Some (True, s')
           \<and> handshakes (issued_between s0 s') = handshakes (issued_between s0 s)
           \<and> allocations (issued_between s0 s') = allocations (issued_between s0 s)"
    by auto
next
  assume a: "connect L d0 n0 s0 = Some (True, s)
        \<and> (\<forall>t>length (trace s0). mysql_stat_r L t \<noteq> None)"
  then have first: "connect L d0 n0 s0 = Some (True, s)"
    and live: "\<forall>t>length (trace s0). mysql_stat_r L t \<noteq> None" by simp_all
  let ?s' = "snd (connected L s)"
  from connect_True_handle [OF first] have h: "m_mysql s \<noteq> None" .
  from connect_grows [OF first] live have "mysql_stat_r L (length (trace s)) \<noteq> None" by simp
  with h have f: "fst (connected L s)" by (simp add: connected_True_iff)
  from first obtain d' where d0: "d0 = Suc d'" by (cases d0) auto
  from connect_fast_path [OF f, of d' n0] first
  have twice: "connect_twice L d0 n0 s0 = Some (True, ?s')"
    by (simp add: connect_twice_def d0 del: connect.simps)
  from connect_step_ok [OF first] have a1: "step_ok s0 s" .
  have a2: "step_ok s ?s'" by (rule step_ok_connected)
  have i: "issued_between s ?s' = [Mysql_stat (m_mysql s)]" using h by (auto simp add: connected_snd)
  from issued_between_trans [OF a1 a2] i
  have eq: "issued_between s0 ?s' = issued_between s0 s @ [Mysql_stat (m_mysql s)]" by simp
  from once_issued [OF connect_live_once [OF live first]]
  have "handshakes (issued_between s0 ?s') \<le> 1" "allocations (issued_between s0 ?s') \<le> 1"
    by (simp_all add: eq)
  with twice i
  show "\<exists>s'. connect_twice L d0 n0 s0 = Some (True, s')
           \<and> issued_between s s' = [Mysql_stat (m_mysql s)]
           \<and> handshakes (issued_between s0 s') \<le> 1
           \<and> allocations (issued_between s0 s') \<le> 1"
    by blast
qed


theorem connect_idempotent_witness:
  "\<exists>s'. connect_twice lib_up 2 1 (create acct_full) = Some (True, s')
       \<and> handshakes (issued_between (create acct_full) s') \<le> 1
       \<and> allocations (issued_between (create acct_full) s') \<le> 1"
proof -
  let ?c = "connect lib_up 2 1 (create acct_full)"
  have "map_option fst ?c = Some True"
    by (simp add: numeral_2_eq_2 run_defs acct_full_def acct_plain_def lib_up_def)
  from option_fst_True [OF this] have h: "?c = Some (True, snd (the ?c))" .
  have live: "\<forall>t>length (trace (create acct_full)). mysql_stat_r lib_up t \<noteq> None"
    by (simp add: lib_up_def)
  from connect_idempotent [of lib_up "snd (the ?c)" _ 0 0 2 1 "create acct_full"] h live
  show ?thesis by blast
qed


subsection \<open>Failures during \<open>connect\<close>\<close>

text \<open>Once the handshake has succeeded, every \<open>false\<close> of \<open>connect\<close> comes after a
  \<open>disconnect\<close>: the session handle is gone and \<open>connected()\<close> is false.\<close>

lemma connect_setup_failure_tears_down:
  assumes session: "connect_session L s = Inr s4"
    and run: "connect L (Suc d) n s = Some (False, s')"
  shows "m_mysql s' = None \<and> connected L s' = (False, s')"
proof -
  from connect_session_ok(2) [OF session] have h: "m_mysql s4 \<noteq> None" by simp
  from run session obtain res where u: "connect_defaults (connect L d n) L s4 = Some res"
    by (auto simp add: connect_once_def split: option.splits)
  have "m_mysql s' = None"
  proof (cases res)
    case (Inl r)
    with run session u have "connect_defaults (connect L d n) L s4 = Some (Inl (False, s'))"
      by (simp add: connect_once_def)
    from connect_defaults_ok(1) [OF connect_ok h this] show ?thesis by simp
  next
    case (Inr s6)
    with run session u
    have "connect_options (execute_with (connect L d n) L n) (options (m_account s6)) s6 = Some (False, s')"
      by (simp add: connect_once_def)
    then show ?thesis by (rule connect_options_False_handle)
  qed
  then show ?thesis by (simp add: connected_def)
qed

text \<open>C1 fails for the two steps before that. When the handshake is refused, \<open>connect\<close>
  returns \<open>false\<close> while \<open>m_mysql\<close> still holds the handle from \<open>mysql_init\<close>; neither
  \<open>mysql_close\<close> nor \<open>mysql_thread_end\<close> has been called, and \<open>connected()\<close> is whatever the
  probe answers for that handle, here true. The same when the TLS parameters are
  rejected.\<close>

theorem connect_failure_keeps_handle:
  "map_option fst (connect lib_refused 1 0 (create acct_plain)) = Some False
   \<and> map_option (m_mysql \<circ> snd) (connect lib_refused 1 0 (create acct_plain)) = Some (Some 1)
   \<and> map_option (trace \<circ> snd) (connect lib_refused 1 0 (create acct_plain))
       = Some [Mysql_init, Mysql_real_connect (Some 1) ''db.example'' ''app'' ''secret'' 3306 None]
   \<and> map_option (fst \<circ> connected lib_refused \<circ> snd) (connect lib_refused 1 0 (create acct_plain))
       = Some True
   \<and> map_option fst (connect lib_tls_fails 1 0 (create acct_tls)) = Some False
   \<and> map_option (m_mysql \<circ> snd) (connect lib_tls_fails 1 0 (create acct_tls)) = Some (Some 1)
   \<and> map_option (trace \<circ> snd) (connect lib_tls_fails 1 0 (create acct_tls))
       = Some [Mysql_init,
               Mysql_ssl_set (Some 1) ''client-key.pem'' ''client-cert.pem'' ''ca.pem'' [] []]"
  by (simp add: run_defs acct_tls_def acct_plain_def lib_refused_def lib_tls_fails_def lib_up_def)

subsection \<open>\<open>connected\<close> and \<open>disconnect\<close>\<close>

text \<open>C8. A connection just constructed is not connected, and neither is one that has just
  been disconnected; in both cases \<open>connected()\<close> answers without a native call.
  \<open>disconnect()\<close> on a connection without a session handle changes nothing, so a second
  \<open>disconnect()\<close> in a row is the identity.\<close>

theorem disconnect_idempotent:
  "connected L (create acc) = (False, create acc)
   \<and> connected L (disconnect s) = (False, disconnect s)
   \<and> (m_mysql s = None \<longrightarrow> disconnect s = s)
   \<and> disconnect (disconnect s) = disconnect s"
  by (simp add: connected_def create_def disconnect_def)

theorem disconnect_idempotent_witness:
  "m_mysql (create acct_plain) = None \<and> disconnect (create acct_plain) = create acct_plain"
  using disconnect_idempotent [of lib_up acct_plain "create acct_plain"]
  by (simp add: create_def)

end
